theory Spec2Isabelle
  imports Complex_Main "HOL-Library.Multiset"
begin

section \<open>Common machinery\<close>

text \<open>
  The two routines of the benchmark that are modelled here are \<^verbatim>\<open>ComputeResidual\<close>
  (ComputeResidual.cpp) and \<^verbatim>\<open>GenerateProblem\<close> (GenerateProblem.cpp).

  Failures are values.  The three \<^verbatim>\<open>assert\<close>s of GenerateProblem abort the program; an
  access outside an allocated array is undefined in C++ and is made visible as
  \<open>OutOfBounds\<close>.
\<close>

datatype error =
    AssertLocalRows          \<comment> \<open>\<^verbatim>\<open>assert(localNumberOfRows>0)\<close>\<close>
  | AssertTotalRows          \<comment> \<open>\<^verbatim>\<open>assert(totalNumberOfRows>0)\<close>\<close>
  | AssertTotalNonzeros      \<comment> \<open>\<^verbatim>\<open>assert(totalNumberOfNonzeros>0)\<close>\<close>
  | OutOfBounds

text \<open>
  \<^verbatim>\<open>for (i = i0; i < n; i++) body\<close> over a state, stopping at the first failure.  The
  counter never overflows: it stops at \<open>n\<close>, a value of its own type or of a narrower one.
\<close>

function for_loop :: "int \<Rightarrow> int \<Rightarrow> (int \<Rightarrow> 's \<Rightarrow> error + 's) \<Rightarrow> 's \<Rightarrow> error + 's" where
  "for_loop i n body s =
     (if i < n then
        (case body i s of Inl e \<Rightarrow> Inl e | Inr s' \<Rightarrow> for_loop (i + 1) n body s')
      else Inr s)"
  by pat_completeness auto
termination
  by (relation "measure (\<lambda>(i, n, body, s). nat (n - i))") auto

declare for_loop.simps [simp del]

text \<open>The iterations handed to one thread, run in the order given.\<close>

fun for_each :: "int list \<Rightarrow> (int \<Rightarrow> 's \<Rightarrow> error + 's) \<Rightarrow> 's \<Rightarrow> error + 's" where
  "for_each [] body s = Inr s"
| "for_each (i # is) body s =
     (case body i s of Inl e \<Rightarrow> Inl e | Inr s' \<Rightarrow> for_each is body s')"

section \<open>Double precision\<close>

text \<open>
  A \<^verbatim>\<open>double\<close> is a value of the IEEE 754 binary64 format: a finite number, one of the two
  infinities, or NaN.  A finite value is represented by the real number it denotes, so the
  two zeros are one value; \<^verbatim>\<open>std::fabs\<close>, the comparison \<open>>\<close> and the value selected by
  ComputeResidual do not depend on the sign of a zero.  The input vectors may hold any
  value of the type.
\<close>

datatype double = NaN | MInf | Finite real | PInf

text \<open>
  Rounding to nearest, ties to even: the default rounding mode, in which the subtraction
  of two doubles gives the exact difference rounded to a double.  The binary exponent of a positive real \<open>x\<close> is the
  \<open>e\<close> with \<open>pow2 e \<le> x < pow2 (e + 1)\<close>; between these two powers the doubles are the
  multiples of \<open>pow2 (e - 52)\<close>, and below \<open>pow2 (- 1022)\<close> (the subnormal range) the
  multiples of \<open>pow2 (- 1074)\<close>.  A result that rounds to \<open>pow2 1024\<close> or more overflows to
  the infinity of its sign.
\<close>

definition pow2 :: "int \<Rightarrow> real" where
  "pow2 k = (if 0 \<le> k then 2 ^ nat k else 1 / 2 ^ nat (- k))"

function bit_length :: "int \<Rightarrow> int" where
  "bit_length k = (if k \<le> 0 then 0 else 1 + bit_length (k div 2))"
  by pat_completeness auto
termination
  by (relation "measure nat") auto

declare bit_length.simps [simp del]

definition exponent :: "real \<Rightarrow> int" where
  "exponent x = (if 1 \<le> x then bit_length \<lfloor>x\<rfloor> - 1 else - bit_length (\<lceil>1 / x\<rceil> - 1))"

definition round_half_even :: "real \<Rightarrow> int" where
  "round_half_even t =
     (let f = \<lfloor>t\<rfloor>; d = t - of_int f
      in if d < 1 / 2 then f else if 1 / 2 < d then f + 1 else if even f then f else f + 1)"

definition round_double :: "real \<Rightarrow> double" where
  "round_double x =
     (if x = 0 then Finite 0
      else
        (let q = pow2 (max (exponent \<bar>x\<bar>) (- 1022) - 52);
             y = of_int (round_half_even (\<bar>x\<bar> / q)) * q
         in if pow2 1024 \<le> y then (if 0 < x then PInf else MInf)
            else Finite (if 0 < x then y else - y)))"

text \<open>
  The three operations of the loop body: the subtraction \<^verbatim>\<open>a - b\<close> (NaN when an operand is
  NaN or when two infinities of the same sign are subtracted), \<^verbatim>\<open>std::fabs\<close>, and the
  comparison \<^verbatim>\<open>a > b\<close>, which is false whenever an operand is NaN.
\<close>

fun double_sub :: "double \<Rightarrow> double \<Rightarrow> double" where
  "double_sub (Finite a) (Finite b) = round_double (a - b)"
| "double_sub NaN b = NaN"
| "double_sub a NaN = NaN"
| "double_sub PInf PInf = NaN"
| "double_sub MInf MInf = NaN"
| "double_sub PInf b = PInf"
| "double_sub MInf b = MInf"
| "double_sub a PInf = MInf"
| "double_sub a MInf = PInf"

fun double_fabs :: "double \<Rightarrow> double" where
  "double_fabs NaN = NaN"
| "double_fabs MInf = PInf"
| "double_fabs PInf = PInf"
| "double_fabs (Finite a) = Finite \<bar>a\<bar>"

fun double_gt :: "double \<Rightarrow> double \<Rightarrow> bool" where
  "double_gt NaN b = False"
| "double_gt a NaN = False"
| "double_gt a PInf = False"
| "double_gt PInf b = True"
| "double_gt MInf b = False"
| "double_gt (Finite a) MInf = True"
| "double_gt (Finite a) (Finite b) = (a > b)"

section \<open>ComputeResidual\<close>

text \<open>
  An input vector is the list of its elements; reading behind its end is \<open>OutOfBounds\<close>.
\<close>

definition read_at :: "double list \<Rightarrow> int \<Rightarrow> error + double" where
  "read_at v i = (if 0 \<le> i \<and> i < int (length v) then Inr (v ! nat i) else Inl OutOfBounds)"

text \<open>
  The loop body, the same in both builds:
  \<^verbatim>\<open>double diff = std::fabs(v1[i] - v2[i]); if (diff > residual) residual = diff;\<close>
\<close>

definition residual_step :: "double list \<Rightarrow> double list \<Rightarrow> int \<Rightarrow> double \<Rightarrow> error + double" where
  "residual_step v1 v2 i residual =
     (case read_at v1 i of
        Inl e \<Rightarrow> Inl e
      | Inr a \<Rightarrow>
          (case read_at v2 i of
             Inl e \<Rightarrow> Inl e
           | Inr b \<Rightarrow>
               (let diff = double_fabs (double_sub a b)
                in Inr (if double_gt diff residual then diff else residual))))"

text \<open>
  The build with OpenMP: every thread starts from \<^verbatim>\<open>threadlocal_residual = 0.0\<close>, runs the
  iterations that \<^verbatim>\<open>#pragma omp for\<close> gave it, and merges its result into
  \<^verbatim>\<open>local_residual\<close> inside the critical section.  A schedule lists, for each thread in
  the order in which the threads enter the critical section, the iterations of that thread.
\<close>

type_synonym schedule = "int list list"

fun omp_parallel :: "double list \<Rightarrow> double list \<Rightarrow> schedule \<Rightarrow> double \<Rightarrow> error + double" where
  "omp_parallel v1 v2 [] local_residual = Inr local_residual"
| "omp_parallel v1 v2 (iterations # threads) local_residual =
     (case for_each iterations (residual_step v1 v2) (Finite 0) of
        Inl e \<Rightarrow> Inl e
      | Inr threadlocal_residual \<Rightarrow>
          omp_parallel v1 v2 threads
            (if double_gt threadlocal_residual local_residual then threadlocal_residual
             else local_residual))"

text \<open>OpenMP runs every iteration of the loop exactly once, on some thread.\<close>

definition valid_schedule :: "int \<Rightarrow> schedule \<Rightarrow> bool" where
  "valid_schedule n threads \<longleftrightarrow> mset (concat threads) = mset [0..n - 1]"

datatype threading = NoOpenMP | OpenMP schedule

text \<open>
  \<^verbatim>\<open>MPI_Allreduce(..., MPI_MAX, ...)\<close>: this process's value combined with the values
  contributed by the other processes, keeping the larger of two values (none in a
  single-process run, where the build without MPI assigns \<^verbatim>\<open>local_residual\<close> itself).
  MPI does not say what the maximum is when a contribution is NaN; the model compares as
  the loop body does.
\<close>

definition MPI_Allreduce_MAX :: "double \<Rightarrow> double list \<Rightarrow> double" where
  "MPI_Allreduce_MAX local_value others =
     fold (\<lambda>other result. if double_gt other result then other else result) others local_value"

text \<open>The result is the returned status together with the value stored in \<^verbatim>\<open>*residual\<close>.\<close>

definition ComputeResidual ::
    "threading \<Rightarrow> double list \<Rightarrow> int \<Rightarrow> double list \<Rightarrow> double list \<Rightarrow> error + (int \<times> double)" where
  "ComputeResidual build others n v1 v2 =
     (case (case build of
              NoOpenMP \<Rightarrow> for_loop 0 n (residual_step v1 v2) (Finite 0)
            | OpenMP threads \<Rightarrow> omp_parallel v1 v2 threads (Finite 0)) of
        Inl e \<Rightarrow> Inl e
      | Inr local_residual \<Rightarrow> Inr (0, MPI_Allreduce_MAX local_residual others))"

section \<open>Machine integers\<close>

text \<open>
  The geometry and the loop bounds are C \<^verbatim>\<open>int\<close>s.  The index types \<^verbatim>\<open>local_int_t\<close> and
  \<^verbatim>\<open>global_int_t\<close> are typedefs of a header that configures each of them as \<^verbatim>\<open>int\<close> or
  \<^verbatim>\<open>long long\<close>; they are parameters \<open>L\<close> and \<open>G\<close> of the model.  Values are integers, and
  every arithmetic operation and conversion reduces its result to the two's complement
  range of the type in which C++ evaluates it, which is the wrap-around that the asserts
  of GenerateProblem are written to catch.
\<close>

datatype ctype = CInt | CLongLong

fun bits :: "ctype \<Rightarrow> nat" where
  "bits CInt = 32"
| "bits CLongLong = 64"

definition wrap :: "ctype \<Rightarrow> int \<Rightarrow> int" where
  "wrap t v = (v + 2 ^ (bits t - 1)) mod 2 ^ bits t - 2 ^ (bits t - 1)"

definition fits :: "ctype \<Rightarrow> int \<Rightarrow> bool" where
  "fits t v \<longleftrightarrow> - (2 ^ (bits t - 1)) \<le> v \<and> v < 2 ^ (bits t - 1)"

definition c_add :: "ctype \<Rightarrow> int \<Rightarrow> int \<Rightarrow> int" where
  "c_add t a b = wrap t (a + b)"

definition c_mul :: "ctype \<Rightarrow> int \<Rightarrow> int \<Rightarrow> int" where
  "c_mul t a b = wrap t (a * b)"

section \<open>GenerateProblem\<close>

record Geometry =
  size_g :: int    \<comment> \<open>\<^verbatim>\<open>geom.size\<close>, the number of processes\<close>
  rank_g :: int    \<comment> \<open>\<^verbatim>\<open>geom.rank\<close>, used for debug output only\<close>
  nx :: int
  ny :: int
  nz :: int
  npx :: int
  npy :: int
  npz :: int
  ipx :: int
  ipy :: int
  ipz :: int

text \<open>
  Every row owns arrays of 27 slots that are filled from the front through a pointer that
  moves one slot with each entry; a row array is modelled by the list of the slots written
  so far.  \<^verbatim>\<open>matrixDiagonal[i]\<close> points into the value array of row \<open>i\<close> and is modelled by
  the number of the slot it points to, the null pointer by \<open>None\<close>.  An element of an array
  that \<^verbatim>\<open>new\<close> has allocated and nothing has written yet is \<open>None\<close>.  The doubles that
  GenerateProblem writes are 27, -1, 0, 1 and \<open>27 - (n - 1)\<close> for a count \<open>n\<close> of at most 27:
  integers that double arithmetic computes exactly, represented by the reals they denote.
\<close>

record SparseMatrix =
  title :: "string option"
  totalNumberOfRows :: int
  totalNumberOfNonzeros :: int
  localNumberOfRows :: int
  localNumberOfColumns :: int
  localNumberOfNonzeros :: int
  nonzerosInRow :: "int option list"
  mtxIndG :: "int list list"
  mtxIndL :: "int list list"
  matrixValues :: "real list list"
  matrixDiagonal :: "nat option list"
  globalToLocalMap :: "int \<rightharpoonup> int"
  localToGlobalMap :: "int list"

text \<open>The matrix together with the three vectors that GenerateProblem hands back.\<close>

record Problem = SparseMatrix +
  x_vec :: "real option list"
  b_vec :: "real option list"
  xexact_vec :: "real option list"

definition gnx :: "Geometry \<Rightarrow> int" where
  "gnx geom = c_mul CInt (nx geom) (npx geom)"

definition gny :: "Geometry \<Rightarrow> int" where
  "gny geom = c_mul CInt (ny geom) (npy geom)"

definition gnz :: "Geometry \<Rightarrow> int" where
  "gnz geom = c_mul CInt (nz geom) (npz geom)"

text \<open>\<^verbatim>\<open>local_int_t localNumberOfRows = nx*ny*nz;\<close> multiplies in \<^verbatim>\<open>int\<close> and converts.\<close>

definition numberOfLocalRows :: "ctype \<Rightarrow> Geometry \<Rightarrow> int" where
  "numberOfLocalRows L geom = wrap L (c_mul CInt (c_mul CInt (nx geom) (ny geom)) (nz geom))"

text \<open>
  \<^verbatim>\<open>global_int_t totalNumberOfRows = localNumberOfRows*geom.size;\<close> multiplies in
  \<^verbatim>\<open>local_int_t\<close> and converts.
\<close>

definition numberOfTotalRows :: "ctype \<Rightarrow> ctype \<Rightarrow> Geometry \<Rightarrow> int" where
  "numberOfTotalRows L G geom = wrap G (c_mul L (numberOfLocalRows L geom) (size_g geom))"

subsection \<open>The stencil of one row\<close>

text \<open>The part of the row written so far and the local variables of the stencil loops.\<close>

record Row =
  row_values :: "real list"          \<comment> \<open>slots before \<^verbatim>\<open>currentValuePointer\<close>\<close>
  row_indG :: "int list"             \<comment> \<open>slots before \<^verbatim>\<open>currentIndexPointerG\<close>\<close>
  row_diagonal :: "nat option"       \<comment> \<open>\<^verbatim>\<open>matrixDiagonal[currentLocalRow]\<close>\<close>
  numberOfNonzerosInRow :: int

text \<open>
  Before the stencil loops nothing of the row is written, the count is 0, and
  \<^verbatim>\<open>matrixDiagonal[currentLocalRow]\<close> holds what it held.
\<close>

definition new_row :: "nat option \<Rightarrow> Row" where
  "new_row diagonal =
     \<lparr>row_values = [], row_indG = [], row_diagonal = diagonal, numberOfNonzerosInRow = 0\<rparr>"

text \<open>
  \<^verbatim>\<open>curcol = currentGlobalRow+sz*gnx*gny+sy*gnx+sx\<close>: the products are \<^verbatim>\<open>int\<close> products, the
  sums are taken in \<^verbatim>\<open>global_int_t\<close>.
\<close>

definition curcol :: "ctype \<Rightarrow> Geometry \<Rightarrow> int \<Rightarrow> int \<Rightarrow> int \<Rightarrow> int \<Rightarrow> int" where
  "curcol G geom currentGlobalRow sz sy sx =
     c_add G (c_add G (c_add G currentGlobalRow (c_mul CInt (c_mul CInt sz (gnx geom)) (gny geom)))
                      (c_mul CInt sy (gnx geom)))
             sx"

text \<open>
  The body of the innermost loop.  \<^verbatim>\<open>numberOfNonzerosInRow\<close> is a \<^verbatim>\<open>char\<close> that is
  incremented at most 27 times from 0.
\<close>

definition stencil_entry :: "ctype \<Rightarrow> Geometry \<Rightarrow> int \<Rightarrow> int \<Rightarrow> int \<Rightarrow> int \<Rightarrow> Row \<Rightarrow> Row" where
  "stencil_entry G geom currentGlobalRow sz sy sx row =
     (let col = curcol G geom currentGlobalRow sz sy sx
      in \<lparr>row_values = row_values row @ [if col = currentGlobalRow then 27 else - 1],
          row_indG = row_indG row @ [col],
          row_diagonal =
            (if col = currentGlobalRow then Some (length (row_values row)) else row_diagonal row),
          numberOfNonzerosInRow = numberOfNonzerosInRow row + 1\<rparr>)"

text \<open>\<^verbatim>\<open>for (int sx=-1; sx<=1; sx++) if (gix+sx>-1 && gix+sx<gnx) ...\<close>\<close>

definition stencil_sx :: "ctype \<Rightarrow> Geometry \<Rightarrow> int \<Rightarrow> int \<Rightarrow> int \<Rightarrow> int \<Rightarrow> Row \<Rightarrow> Row" where
  "stencil_sx G geom gix currentGlobalRow sz sy row =
     fold (\<lambda>sx row.
             if c_add G gix sx > - 1 \<and> c_add G gix sx < gnx geom
             then stencil_entry G geom currentGlobalRow sz sy sx row
             else row)
       [- 1, 0, 1] row"

definition stencil_sy :: "ctype \<Rightarrow> Geometry \<Rightarrow> int \<Rightarrow> int \<Rightarrow> int \<Rightarrow> int \<Rightarrow> Row \<Rightarrow> Row" where
  "stencil_sy G geom gix giy currentGlobalRow sz row =
     fold (\<lambda>sy row.
             if c_add G giy sy > - 1 \<and> c_add G giy sy < gny geom
             then stencil_sx G geom gix currentGlobalRow sz sy row
             else row)
       [- 1, 0, 1] row"

definition stencil_sz :: "ctype \<Rightarrow> Geometry \<Rightarrow> int \<Rightarrow> int \<Rightarrow> int \<Rightarrow> int \<Rightarrow> Row \<Rightarrow> Row" where
  "stencil_sz G geom gix giy giz currentGlobalRow row =
     fold (\<lambda>sz row.
             if c_add G giz sz > - 1 \<and> c_add G giz sz < gnz geom
             then stencil_sy G geom gix giy currentGlobalRow sz row
             else row)
       [- 1, 0, 1] row"

subsection \<open>One grid point\<close>

text \<open>\<^verbatim>\<open>global_int_t gix = ipx*nx+ix;\<close> and its two siblings.\<close>

definition global_coord :: "ctype \<Rightarrow> ctype \<Rightarrow> int \<Rightarrow> int \<Rightarrow> int \<Rightarrow> int" where
  "global_coord L G ip n i = wrap G (c_add L (c_mul CInt ip n) i)"

text \<open>\<^verbatim>\<open>local_int_t currentLocalRow = iz*nx*ny+iy*nx+ix;\<close>\<close>

definition currentLocalRow :: "ctype \<Rightarrow> Geometry \<Rightarrow> int \<Rightarrow> int \<Rightarrow> int \<Rightarrow> int" where
  "currentLocalRow L geom iz iy ix =
     c_add L (c_add L (c_mul L (c_mul L iz (nx geom)) (ny geom)) (c_mul L iy (nx geom))) ix"

text \<open>\<^verbatim>\<open>global_int_t currentGlobalRow = giz*gnx*gny+giy*gnx+gix;\<close>\<close>

definition currentGlobalRow :: "ctype \<Rightarrow> Geometry \<Rightarrow> int \<Rightarrow> int \<Rightarrow> int \<Rightarrow> int" where
  "currentGlobalRow G geom giz giy gix =
     c_add G (c_add G (c_mul G (c_mul G giz (gnx geom)) (gny geom)) (c_mul G giy (gnx geom))) gix"

text \<open>
  The body of the \<open>ix\<close> loop.  All row-indexed arrays are allocated with
  \<^verbatim>\<open>localNumberOfRows\<close> elements, so one test decides whether the writes at
  \<^verbatim>\<open>currentLocalRow\<close> stay inside them.
\<close>

definition generate_row ::
    "ctype \<Rightarrow> ctype \<Rightarrow> Geometry \<Rightarrow> int \<Rightarrow> int \<Rightarrow> int \<Rightarrow> Problem \<Rightarrow> error + Problem" where
  "generate_row L G geom iz iy ix P =
     (let giz = global_coord L G (ipz geom) (nz geom) iz;
          giy = global_coord L G (ipy geom) (ny geom) iy;
          gix = global_coord L G (ipx geom) (nx geom) ix;
          r = currentLocalRow L geom iz iy ix;
          g = currentGlobalRow G geom giz giy gix
      in if 0 \<le> r \<and> r < int (length (nonzerosInRow P)) then
           (let row = stencil_sz G geom gix giy giz g (new_row (matrixDiagonal P ! nat r))
            in Inr (P\<lparr>globalToLocalMap := (globalToLocalMap P)(g \<mapsto> r),
                      localToGlobalMap := (localToGlobalMap P)[nat r := g],
                      matrixValues := (matrixValues P)[nat r := row_values row],
                      mtxIndG := (mtxIndG P)[nat r := row_indG row],
                      matrixDiagonal := (matrixDiagonal P)[nat r := row_diagonal row],
                      nonzerosInRow := (nonzerosInRow P)[nat r := Some (numberOfNonzerosInRow row)],
                      localNumberOfNonzeros :=
                        c_add L (localNumberOfNonzeros P) (numberOfNonzerosInRow row),
                      x_vec := (x_vec P)[nat r := Some 0],
                      b_vec := (b_vec P)[nat r := Some (27 - real_of_int (numberOfNonzerosInRow row - 1))],
                      xexact_vec := (xexact_vec P)[nat r := Some 1]\<rparr>))
         else Inl OutOfBounds)"

text \<open>The three nested loops over the local grid.\<close>

definition generate_rows :: "ctype \<Rightarrow> ctype \<Rightarrow> Geometry \<Rightarrow> Problem \<Rightarrow> error + Problem" where
  "generate_rows L G geom =
     for_loop 0 (nz geom) (\<lambda>iz.
       for_loop 0 (ny geom) (\<lambda>iy.
         for_loop 0 (nx geom) (\<lambda>ix.
           generate_row L G geom iz iy ix)))"

subsection \<open>The whole routine\<close>

text \<open>
  The allocations before the loops.  \<^verbatim>\<open>A.localToGlobalMap.resize(n)\<close> keeps the elements the
  vector had and fills up with 0; \<^verbatim>\<open>A.globalToLocalMap\<close> keeps its entries.  The local
  arrays and \<^verbatim>\<open>localNumberOfNonzeros\<close> are kept in the fields of \<open>A\<close> that receive them
  at the end of the routine.
\<close>

definition allocate :: "nat \<Rightarrow> SparseMatrix \<Rightarrow> Problem" where
  "allocate n A =
     \<lparr>title = title A,
      totalNumberOfRows = totalNumberOfRows A,
      totalNumberOfNonzeros = totalNumberOfNonzeros A,
      localNumberOfRows = localNumberOfRows A,
      localNumberOfColumns = localNumberOfColumns A,
      localNumberOfNonzeros = 0,
      nonzerosInRow = replicate n None,
      mtxIndG = replicate n [],
      mtxIndL = replicate n [],
      matrixValues = replicate n [],
      matrixDiagonal = replicate n None,
      globalToLocalMap = globalToLocalMap A,
      localToGlobalMap = take n (localToGlobalMap A) @ replicate (n - length (localToGlobalMap A)) 0,
      x_vec = replicate n None,
      b_vec = replicate n None,
      xexact_vec = replicate n None\<rparr>"

text \<open>
  \<^verbatim>\<open>MPI_Allreduce(&lnnz, &gnnz, 1, MPI_LONG_LONG_INT, MPI_SUM, ...)\<close>: the sum, in
  \<^verbatim>\<open>long long\<close>, of this process's count and the counts of the other processes, which are
  a parameter of the model.  With no other process it is the assignment of the build without
  MPI.
\<close>

definition MPI_Allreduce_SUM :: "int \<Rightarrow> int list \<Rightarrow> int" where
  "MPI_Allreduce_SUM lnnz others = wrap CLongLong (lnnz + sum_list others)"

definition GenerateProblem ::
    "ctype \<Rightarrow> ctype \<Rightarrow> int list \<Rightarrow> Geometry \<Rightarrow> SparseMatrix \<Rightarrow> error + Problem" where
  "GenerateProblem L G others geom A =
     (if \<not> numberOfLocalRows L geom > 0 then Inl AssertLocalRows
      else if \<not> numberOfTotalRows L G geom > 0 then Inl AssertTotalRows
      else
        (case generate_rows L G geom (allocate (nat (numberOfLocalRows L geom)) A) of
           Inl e \<Rightarrow> Inl e
         | Inr P \<Rightarrow>
             (let nnz = wrap G (MPI_Allreduce_SUM (localNumberOfNonzeros P) others)
              in if \<not> nnz > 0 then Inl AssertTotalNonzeros
                 else Inr (P\<lparr>title := None,
                             totalNumberOfRows := numberOfTotalRows L G geom,
                             totalNumberOfNonzeros := nnz,
                             localNumberOfRows := numberOfLocalRows L geom,
                             localNumberOfColumns := numberOfLocalRows L geom\<rparr>))))"

section \<open>Vocabulary of the properties\<close>

subsection \<open>ComputeResidual\<close>

text \<open>
  A build without OpenMP, or one with a schedule that OpenMP can produce.
\<close>

fun valid_build :: "int \<Rightarrow> threading \<Rightarrow> bool" where
  "valid_build n NoOpenMP = True"
| "valid_build n (OpenMP threads) = valid_schedule n threads"

text \<open>
  The absolute difference at one index, as the loop body computes it.
\<close>

definition absdiff :: "double list \<Rightarrow> double list \<Rightarrow> int \<Rightarrow> double" where
  "absdiff v1 v2 i = double_fabs (double_sub (v1 ! nat i) (v2 ! nat i))"

text \<open>
  \<open>r\<close> is the largest absolute difference over the indices in \<open>S\<close>, the differences that are
  NaN being left out, and 0 when no difference is left: \<open>r\<close> is a number that is not
  negative, it is 0 or the difference at some index, and no difference is greater.  The
  same over the first \<open>n\<close> indices.
\<close>

definition largest_of :: "double list \<Rightarrow> double list \<Rightarrow> int set \<Rightarrow> double \<Rightarrow> bool" where
  "largest_of v1 v2 S r \<longleftrightarrow>
     r \<noteq> NaN \<and> \<not> double_gt (Finite 0) r \<and>
     (r = Finite 0 \<or> (\<exists>i\<in>S. r = absdiff v1 v2 i)) \<and>
     (\<forall>i\<in>S. \<not> double_gt (absdiff v1 v2 i) r)"

definition is_max_abs_diff :: "int \<Rightarrow> double list \<Rightarrow> double list \<Rightarrow> double \<Rightarrow> bool" where
  "is_max_abs_diff n v1 v2 r \<longleftrightarrow> largest_of v1 v2 (set [0..n - 1]) r"

subsection \<open>The stencil\<close>

text \<open>
  The effect of the innermost loop body once the column is known, the test of one
  \<^verbatim>\<open>if\<close> of the stencil loops, and the columns that the three stencil loops visit, in the
  order of the loops and with the arithmetic of the code.
\<close>

definition empty_row :: Row where
  "empty_row = new_row None"

definition write_entry :: "int \<Rightarrow> int \<Rightarrow> Row \<Rightarrow> Row" where
  "write_entry g col row =
     \<lparr>row_values = row_values row @ [if col = g then 27 else - 1],
      row_indG = row_indG row @ [col],
      row_diagonal = (if col = g then Some (length (row_values row)) else row_diagonal row),
      numberOfNonzerosInRow = numberOfNonzerosInRow row + 1\<rparr>"

definition in_domain :: "ctype \<Rightarrow> int \<Rightarrow> int \<Rightarrow> int \<Rightarrow> bool" where
  "in_domain G g n s \<longleftrightarrow> c_add G g s > - 1 \<and> c_add G g s < n"

definition stencil_cols :: "ctype \<Rightarrow> Geometry \<Rightarrow> int \<Rightarrow> int \<Rightarrow> int \<Rightarrow> int \<Rightarrow> int list" where
  "stencil_cols G geom gix giy giz g =
     concat (map (\<lambda>sz.
       concat (map (\<lambda>sy.
         map (\<lambda>sx. curcol G geom g sz sy sx)
           (filter (in_domain G gix (gnx geom)) [- 1, 0, 1]))
         (filter (in_domain G giy (gny geom)) [- 1, 0, 1])))
       (filter (in_domain G giz (gnz geom)) [- 1, 0, 1]))"

text \<open>
  The same in exact arithmetic: the linearisation \<open>k * n1 * n2 + j * n1 + i\<close> that gives both
  the local and the global row numbers, the offsets of one axis that stay inside the domain,
  and the columns of the clipped stencil around a grid point.
\<close>

definition lin :: "int \<Rightarrow> int \<Rightarrow> int \<Rightarrow> int \<Rightarrow> int \<Rightarrow> int" where
  "lin n1 n2 k j i = k * n1 * n2 + j * n1 + i"

definition offsets :: "int \<Rightarrow> int \<Rightarrow> int list" where
  "offsets g n = filter (\<lambda>s. g + s > - 1 \<and> g + s < n) [- 1, 0, 1]"

definition ideal_cols :: "int \<Rightarrow> int \<Rightarrow> int \<Rightarrow> int \<Rightarrow> int \<Rightarrow> int \<Rightarrow> int list" where
  "ideal_cols Nx Ny Nz gix giy giz =
     concat (map (\<lambda>sz.
       concat (map (\<lambda>sy.
         map (\<lambda>sx. lin Nx Ny (giz + sz) (giy + sy) (gix + sx)) (offsets gix Nx))
         (offsets giy Ny)))
       (offsets giz Nz))"

subsection \<open>Geometries\<close>

text \<open>
  A geometry is valid when its extents are positive, the process lies inside the process
  grid and the number of processes is positive.
\<close>

definition valid_geometry :: "Geometry \<Rightarrow> bool" where
  "valid_geometry geom \<longleftrightarrow>
     0 < nx geom \<and> 0 < ny geom \<and> 0 < nz geom \<and>
     0 < npx geom \<and> 0 < npy geom \<and> 0 < npz geom \<and>
     0 \<le> ipx geom \<and> ipx geom < npx geom \<and>
     0 \<le> ipy geom \<and> ipy geom < npy geom \<and>
     0 \<le> ipz geom \<and> ipz geom < npz geom \<and>
     0 < size_g geom"

text \<open>
  The global extents, and the number of local rows, as exact integers.
\<close>

definition global_nx :: "Geometry \<Rightarrow> int" where
  "global_nx geom = nx geom * npx geom"

definition global_ny :: "Geometry \<Rightarrow> int" where
  "global_ny geom = ny geom * npy geom"

definition global_nz :: "Geometry \<Rightarrow> int" where
  "global_nz geom = nz geom * npz geom"

definition num_rows :: "Geometry \<Rightarrow> nat" where
  "num_rows geom = nat (nx geom * ny geom * nz geom)"

text \<open>
  The grid point of local row \<open>r\<close>: its local coordinates, its global coordinates, its global
  row number, and the columns of its stencil.
\<close>

definition row_ix :: "Geometry \<Rightarrow> nat \<Rightarrow> int" where
  "row_ix geom r = int r mod nx geom"

definition row_iy :: "Geometry \<Rightarrow> nat \<Rightarrow> int" where
  "row_iy geom r = (int r div nx geom) mod ny geom"

definition row_iz :: "Geometry \<Rightarrow> nat \<Rightarrow> int" where
  "row_iz geom r = (int r div nx geom) div ny geom"

definition row_gix :: "Geometry \<Rightarrow> nat \<Rightarrow> int" where
  "row_gix geom r = ipx geom * nx geom + row_ix geom r"

definition row_giy :: "Geometry \<Rightarrow> nat \<Rightarrow> int" where
  "row_giy geom r = ipy geom * ny geom + row_iy geom r"

definition row_giz :: "Geometry \<Rightarrow> nat \<Rightarrow> int" where
  "row_giz geom r = ipz geom * nz geom + row_iz geom r"

definition row_global :: "Geometry \<Rightarrow> nat \<Rightarrow> int" where
  "row_global geom r =
     lin (global_nx geom) (global_ny geom) (row_giz geom r) (row_giy geom r) (row_gix geom r)"

definition row_cols :: "Geometry \<Rightarrow> nat \<Rightarrow> int list" where
  "row_cols geom r =
     ideal_cols (global_nx geom) (global_ny geom) (global_nz geom)
       (row_gix geom r) (row_giy geom r) (row_giz geom r)"

text \<open>
  The number of nonzeros of the first \<open>k\<close> local rows.
\<close>

definition local_nonzeros :: "Geometry \<Rightarrow> nat \<Rightarrow> int" where
  "local_nonzeros geom k = sum_list (map (\<lambda>r. int (length (row_cols geom r))) [0..<k])"

text \<open>
  No overflow: every derived quantity fits the type in which the routine computes it.  The
  global extents and the product \<^verbatim>\<open>gnx*gny\<close> are \<^verbatim>\<open>int\<close>s, the global row numbers are
  \<^verbatim>\<open>global_int_t\<close>, the number of local rows is an \<^verbatim>\<open>int\<close> product, the total number of rows is
  computed in \<^verbatim>\<open>local_int_t\<close> and stored in \<^verbatim>\<open>global_int_t\<close>, and the local number of nonzeros
  is a \<^verbatim>\<open>local_int_t\<close>.
\<close>

definition no_overflow :: "ctype \<Rightarrow> ctype \<Rightarrow> Geometry \<Rightarrow> bool" where
  "no_overflow L G geom \<longleftrightarrow>
     fits CInt (global_nx geom) \<and> fits CInt (global_ny geom) \<and> fits CInt (global_nz geom) \<and>
     fits CInt (global_nx geom * global_ny geom) \<and>
     fits G (global_nx geom * global_ny geom * global_nz geom) \<and>
     fits CInt (nx geom * ny geom * nz geom) \<and>
     fits L (nx geom * ny geom * nz geom * size_g geom) \<and>
     fits G (nx geom * ny geom * nz geom * size_g geom) \<and>
     fits L (local_nonzeros geom (num_rows geom))"

text \<open>
  The counts of the other processes are counts, and the sum of all counts fits the
  \<^verbatim>\<open>long long\<close> of the reduction and \<^verbatim>\<open>global_int_t\<close>.
\<close>

definition counts_fit :: "ctype \<Rightarrow> Geometry \<Rightarrow> int list \<Rightarrow> bool" where
  "counts_fit G geom others \<longleftrightarrow>
     (\<forall>c\<in>set others. 0 \<le> c) \<and>
     fits CLongLong (local_nonzeros geom (num_rows geom) + sum_list others) \<and>
     fits G (local_nonzeros geom (num_rows geom) + sum_list others)"

subsection \<open>The state of the loops\<close>

text \<open>
  Row \<open>r\<close> has been generated; all arrays have their allocated length; the first \<open>k\<close> rows
  have been generated and counted, and the diagonal pointers of the others are still null.
\<close>

definition row_ok :: "Geometry \<Rightarrow> Problem \<Rightarrow> nat \<Rightarrow> bool" where
  "row_ok geom P r \<longleftrightarrow>
     localToGlobalMap P ! r = row_global geom r \<and>
     globalToLocalMap P (row_global geom r) = Some (int r) \<and>
     mtxIndG P ! r = row_cols geom r \<and>
     matrixValues P ! r = map (\<lambda>c. if c = row_global geom r then 27 else - 1) (row_cols geom r) \<and>
     matrixDiagonal P ! r =
       row_diagonal (fold (write_entry (row_global geom r)) (row_cols geom r) empty_row) \<and>
     nonzerosInRow P ! r = Some (int (length (row_cols geom r))) \<and>
     x_vec P ! r = Some 0 \<and>
     b_vec P ! r = Some (27 - real_of_int (int (length (row_cols geom r)) - 1)) \<and>
     xexact_vec P ! r = Some 1"

definition allocated :: "Geometry \<Rightarrow> Problem \<Rightarrow> bool" where
  "allocated geom P \<longleftrightarrow>
     length (localToGlobalMap P) = num_rows geom \<and>
     length (mtxIndG P) = num_rows geom \<and>
     length (matrixValues P) = num_rows geom \<and>
     length (matrixDiagonal P) = num_rows geom \<and>
     length (nonzerosInRow P) = num_rows geom \<and>
     length (x_vec P) = num_rows geom \<and>
     length (b_vec P) = num_rows geom \<and>
     length (xexact_vec P) = num_rows geom"

definition rows_done :: "Geometry \<Rightarrow> nat \<Rightarrow> Problem \<Rightarrow> bool" where
  "rows_done geom k P \<longleftrightarrow>
     allocated geom P \<and> (\<forall>r<k. row_ok geom P r) \<and>
     (\<forall>r. k \<le> r \<and> r < num_rows geom \<longrightarrow> matrixDiagonal P ! r = None) \<and>
     localNumberOfNonzeros P = local_nonzeros geom k"

subsection \<open>The rows as the code stores them\<close>

text \<open>
  The columns that the stencil loops store for local row \<open>r\<close>, computed with the arithmetic
  of the code; row \<open>r\<close> has been generated with them; the first \<open>k\<close> rows have been.  The
  sizes fit: what \<open>no_overflow\<close> asks for, but for the product \<^verbatim>\<open>gnx*gny\<close> and the total
  number of rows.
\<close>

definition stored_cols :: "ctype \<Rightarrow> Geometry \<Rightarrow> nat \<Rightarrow> int list" where
  "stored_cols G geom r =
     stencil_cols G geom (row_gix geom r) (row_giy geom r) (row_giz geom r) (row_global geom r)"

definition row_stored :: "ctype \<Rightarrow> Geometry \<Rightarrow> Problem \<Rightarrow> nat \<Rightarrow> bool" where
  "row_stored G geom P r \<longleftrightarrow>
     localToGlobalMap P ! r = row_global geom r \<and>
     globalToLocalMap P (row_global geom r) = Some (int r) \<and>
     mtxIndG P ! r = stored_cols G geom r \<and>
     matrixValues P ! r = map (\<lambda>c. if c = row_global geom r then 27 else - 1) (stored_cols G geom r) \<and>
     matrixDiagonal P ! r =
       row_diagonal (fold (write_entry (row_global geom r)) (stored_cols G geom r) empty_row) \<and>
     nonzerosInRow P ! r = Some (int (length (stored_cols G geom r))) \<and>
     x_vec P ! r = Some 0 \<and>
     b_vec P ! r = Some (27 - real_of_int (int (length (stored_cols G geom r)) - 1)) \<and>
     xexact_vec P ! r = Some 1"

definition rows_stored :: "ctype \<Rightarrow> Geometry \<Rightarrow> nat \<Rightarrow> Problem \<Rightarrow> bool" where
  "rows_stored G geom k P \<longleftrightarrow>
     allocated geom P \<and> (\<forall>r<k. row_stored G geom P r) \<and>
     (\<forall>r. k \<le> r \<and> r < num_rows geom \<longrightarrow> matrixDiagonal P ! r = None) \<and>
     localNumberOfNonzeros P = local_nonzeros geom k"

definition sizes_fit :: "ctype \<Rightarrow> ctype \<Rightarrow> Geometry \<Rightarrow> bool" where
  "sizes_fit L G geom \<longleftrightarrow>
     fits CInt (global_nx geom) \<and> fits CInt (global_ny geom) \<and> fits CInt (global_nz geom) \<and>
     fits G (global_nx geom * global_ny geom * global_nz geom) \<and>
     fits CInt (nx geom * ny geom * nz geom) \<and>
     fits L (local_nonzeros geom (num_rows geom))"

subsection \<open>Rows of interest\<close>






subsection \<open>Example inputs\<close>

text \<open>
  A cubic geometry: \<open>n\<close> local points and \<open>np\<close> processes in every axis, the process at
  position \<open>ip\<close> in every axis.  A matrix object before generation.
\<close>

definition box_geometry :: "int \<Rightarrow> int \<Rightarrow> int \<Rightarrow> Geometry" where
  "box_geometry n np ip =
     \<lparr>size_g = np * np * np, rank_g = ip + ip * np + ip * np * np,
      nx = n, ny = n, nz = n, npx = np, npy = np, npz = np, ipx = ip, ipy = ip, ipz = ip\<rparr>"

text \<open>
  The process of rank 0, at the origin of a grid of \<open>p1 \<times> p2 \<times> p3\<close> processes that hold
  \<open>n1 \<times> n2 \<times> n3\<close> points each.
\<close>

definition grid_geometry :: "int \<Rightarrow> int \<Rightarrow> int \<Rightarrow> int \<Rightarrow> int \<Rightarrow> int \<Rightarrow> Geometry" where
  "grid_geometry n1 n2 n3 p1 p2 p3 =
     \<lparr>size_g = p1 * p2 * p3, rank_g = 0,
      nx = n1, ny = n2, nz = n3, npx = p1, npy = p2, npz = p3, ipx = 0, ipy = 0, ipz = 0\<rparr>"

definition empty_matrix :: SparseMatrix where
  "empty_matrix =
     \<lparr>title = None, totalNumberOfRows = 0, totalNumberOfNonzeros = 0, localNumberOfRows = 0,
      localNumberOfColumns = 0, localNumberOfNonzeros = 0, nonzerosInRow = [], mtxIndG = [],
      mtxIndL = [], matrixValues = [], matrixDiagonal = [], globalToLocalMap = Map.empty,
      localToGlobalMap = []\<rparr>"

section \<open>ComputeResidual: the arithmetic and the loop\<close>

subsection \<open>Loops\<close>

lemma for_loop_for_each: "for_loop i n body s = for_each [i..n - 1] body s"
proof (induction i n body s rule: for_loop.induct)
  case (1 i n body s)
  show ?case
  proof (cases "i < n")
    case True
    then have "[i..n - 1] = i # [i + 1..n - 1]"
      by (simp add: upto_rec1)
    with True 1 show ?thesis
      by (subst for_loop.simps) (simp split: sum.splits)
  next
    case False
    then show ?thesis
      by (subst for_loop.simps) simp
  qed
qed

subsection \<open>Rounding\<close>

text \<open>
  The exponent computed by \<open>exponent\<close> is the binary exponent, and a difference of
  magnitude \<open>pow2 1024\<close> or more rounds to an infinity.
\<close>

lemma pow2_powr: "pow2 k = 2 powr (of_int k)"
proof (cases "0 \<le> k")
  case True
  then have "2 powr (of_int k) = (2::real) ^ nat k"
    by (simp add: powr_realpow[symmetric])
  with True show ?thesis by (simp add: pow2_def)
next
  case False
  then have "of_int k = - real (nat (- k))" by simp
  then have "2 powr (of_int k) = 1 / (2::real) ^ nat (- k)"
    by (simp add: powr_minus powr_realpow[symmetric] divide_inverse del: of_nat_nat)
  with False show ?thesis by (simp add: pow2_def)
qed

lemma pow2_pos: "0 < pow2 k"
  by (simp add: pow2_powr)

lemma pow2_less: "pow2 a < pow2 b \<longleftrightarrow> a < b"
  by (simp add: pow2_powr)

lemma pow2_le: "pow2 a \<le> pow2 b \<longleftrightarrow> a \<le> b"
  by (simp add: pow2_powr)

lemma pow2_add: "pow2 (a + b) = pow2 a * pow2 b"
  by (simp add: pow2_powr powr_add)

lemma pow2_nat: "0 \<le> k \<Longrightarrow> pow2 k = of_int (2 ^ nat k)"
  by (simp add: pow2_def)

lemma bit_length_nonneg: "0 \<le> bit_length k"
  by (induction k rule: bit_length.induct) (subst bit_length.simps, simp)

lemma bit_length_pos: "0 < k \<Longrightarrow> 0 < bit_length k"
  using bit_length_nonneg[of "k div 2"] by (subst bit_length.simps) simp

lemma bit_length_bounds:
  "0 < k \<Longrightarrow> 2 ^ nat (bit_length k - 1) \<le> k \<and> k < 2 ^ nat (bit_length k)"
proof (induction k rule: bit_length.induct)
  case (1 k)
  show ?case
  proof (cases "k = 1")
    case True
    then show ?thesis
      by (simp add: bit_length.simps[of 1] bit_length.simps[of 0])
  next
    case False
    with 1 have h: "0 < k div 2" by simp
    let ?b = "bit_length (k div 2)"
    have ih: "2 ^ nat (?b - 1) \<le> k div 2" "k div 2 < 2 ^ nat ?b"
      using 1 h by simp_all
    have pos: "0 < ?b"
      using h by (rule bit_length_pos)
    have b: "bit_length k = 1 + ?b"
      using 1(2) by (subst bit_length.simps) simp
    have n: "nat (1 + ?b) = Suc (nat ?b)" "nat ?b = Suc (nat (?b - 1))"
      using pos by simp_all
    have "2 * 2 ^ nat (?b - 1) \<le> k"
      using ih(1) by simp
    moreover have "k < 2 * 2 ^ nat ?b"
      using ih(2) by simp
    ultimately show ?thesis
      using n by (simp add: b)
  qed
qed

lemma exponent_bounds:
  assumes "0 < x"
  shows "pow2 (exponent x) \<le> x \<and> x < pow2 (exponent x + 1)"
proof (cases "1 \<le> x")
  case True
  let ?k = "\<lfloor>x\<rfloor>"
  let ?b = "bit_length ?k"
  have k: "0 < ?k" using True by simp
  have pos: "0 < ?b"
    using k by (rule bit_length_pos)
  from bit_length_bounds[OF k] have "2 ^ nat (?b - 1) \<le> ?k" "?k < 2 ^ nat ?b"
    by simp_all
  then have "of_int (2 ^ nat (?b - 1)) \<le> x" "x < of_int (2 ^ nat ?b)"
    by (simp_all only: le_floor_iff floor_less_iff)
  then have "pow2 (?b - 1) \<le> x" "x < pow2 ?b"
    using pos by (simp_all add: pow2_def)
  with True show ?thesis
    by (simp add: exponent_def)
next
  case False
  let ?c = "\<lceil>1 / x\<rceil>"
  let ?b = "bit_length (?c - 1)"
  have y: "1 < 1 / x" using False assms by simp
  then have c: "0 < ?c - 1" by linarith
  have pos: "0 < ?b"
    using c by (rule bit_length_pos)
  from bit_length_bounds[OF c] have "2 ^ nat (?b - 1) < ?c" "?c \<le> 2 ^ nat ?b"
    by simp_all
  then have "of_int (2 ^ nat (?b - 1)) < 1 / x" "1 / x \<le> of_int (2 ^ nat ?b)"
    by (simp_all only: less_ceiling_iff ceiling_le_iff)
  then have "pow2 (?b - 1) < 1 / x" "1 / x \<le> pow2 ?b"
    using pos by (simp_all add: pow2_def)
  then have "x < 1 / pow2 (?b - 1)" "1 / pow2 ?b \<le> x"
    using assms pow2_pos[of "?b - 1"] pow2_pos[of ?b] by (simp_all add: field_simps)
  moreover have "1 / pow2 k = pow2 (- k)" for k
    by (simp add: pow2_powr powr_minus divide_inverse)
  ultimately have "x < pow2 (- ?b + 1)" "pow2 (- ?b) \<le> x"
    by simp_all
  with False show ?thesis
    by (simp add: exponent_def)
qed

lemma exponent_unique:
  assumes "pow2 e \<le> x" and "x < pow2 (e + 1)"
  shows "exponent x = e"
proof -
  have x: "0 < x" using assms(1) pow2_pos[of e] by linarith
  from exponent_bounds[OF x] assms have "pow2 e < pow2 (exponent x + 1)" "pow2 (exponent x) < pow2 (e + 1)"
    by linarith+
  then show ?thesis
    by (simp add: pow2_less)
qed

lemma exponent_mono:
  assumes "0 < x" and "x \<le> y"
  shows "exponent x \<le> exponent y"
proof -
  from exponent_bounds[OF assms(1)] exponent_bounds[of y] assms
  have "pow2 (exponent x) < pow2 (exponent y + 1)" by linarith
  then show ?thesis by (simp add: pow2_less)
qed

lemma round_half_even_ge:
  assumes "of_int m \<le> t"
  shows "m \<le> round_half_even t"
proof -
  have "m \<le> \<lfloor>t\<rfloor>" using assms by (simp add: le_floor_iff)
  then show ?thesis
    by (auto simp: round_half_even_def Let_def)
qed

lemma round_double_overflow:
  assumes "pow2 1024 \<le> \<bar>x\<bar>"
  shows "round_double x = (if 0 < x then PInf else MInf)"
proof -
  let ?e = "exponent \<bar>x\<bar>"
  let ?q = "pow2 (max ?e (- 1022) - 52)"
  have pos: "0 < \<bar>x\<bar>" using assms pow2_pos[of 1024] by linarith
  from exponent_bounds[OF pos] assms have "pow2 1024 < pow2 (?e + 1)" by linarith
  then have e: "1024 \<le> ?e" by (simp add: pow2_less)
  then have q: "?q = pow2 (?e - 52)" by (simp add: max_def)
  have "pow2 ?e = pow2 (?e - 52) * pow2 52"
    by (simp add: pow2_add[symmetric])
  then have "pow2 52 * ?q \<le> \<bar>x\<bar>"
    using exponent_bounds[OF pos] q by (simp add: mult.commute)
  then have "pow2 52 \<le> \<bar>x\<bar> / ?q"
    using pow2_pos[of "max ?e (- 1022) - 52"] by (simp add: field_simps)
  then have "of_int (2 ^ 52) \<le> \<bar>x\<bar> / ?q"
    by (simp add: pow2_def)
  then have "2 ^ 52 \<le> round_half_even (\<bar>x\<bar> / ?q)"
    by (rule round_half_even_ge)
  then have "(of_int (2 ^ 52) :: real) \<le> of_int (round_half_even (\<bar>x\<bar> / ?q))"
    by (simp only: of_int_le_iff)
  then have "pow2 52 * ?q \<le> of_int (round_half_even (\<bar>x\<bar> / ?q)) * ?q"
    using pow2_pos[of "max ?e (- 1022) - 52"] by (simp add: pow2_def)
  moreover have "pow2 1024 \<le> pow2 52 * ?q"
    using e by (simp add: q pow2_add[symmetric] pow2_le)
  ultimately have "pow2 1024 \<le> of_int (round_half_even (\<bar>x\<bar> / ?q)) * ?q"
    by linarith
  moreover have "x \<noteq> 0" using pos by simp
  ultimately show ?thesis
    by (simp add: round_double_def Let_def)
qed

lemmas double_eval =
  round_double_def exponent_def bit_length.simps pow2_def round_half_even_def Let_def

subsection \<open>The order of the doubles\<close>

lemma double_gt_irrefl: "\<not> double_gt a a"
  by (cases a) simp_all

lemma double_gt_not_NaN: "double_gt a b \<Longrightarrow> a \<noteq> NaN \<and> b \<noteq> NaN"
  by (cases a; cases b) simp_all

lemma double_gt_upper: "double_gt a b \<Longrightarrow> \<not> double_gt c b \<Longrightarrow> \<not> double_gt c a"
  by (cases a; cases b; cases c) simp_all

lemma double_le_trans: "b \<noteq> NaN \<Longrightarrow> \<not> double_gt a b \<Longrightarrow> \<not> double_gt b c \<Longrightarrow> \<not> double_gt a c"
  by (cases a; cases b; cases c) simp_all

lemma double_antisym:
  "a \<noteq> NaN \<Longrightarrow> b \<noteq> NaN \<Longrightarrow> \<not> double_gt a b \<Longrightarrow> \<not> double_gt b a \<Longrightarrow> a = b"
  by (cases a; cases b) simp_all

lemma double_fabs_nonneg: "\<not> double_gt (Finite 0) (double_fabs a)"
  by (cases a) simp_all

lemma round_double_0: "round_double 0 = Finite 0"
  by (simp add: round_double_def)

lemma double_sub_same: "double_sub a a = Finite 0 \<or> double_sub a a = NaN"
  by (cases a) (simp_all add: round_double_0)

lemma absdiff_same: "absdiff v v i = Finite 0 \<or> absdiff v v i = NaN"
  using double_sub_same[of "v ! nat i"] by (auto simp: absdiff_def)

subsection \<open>The largest difference\<close>

lemma largest_of_empty: "largest_of v1 v2 {} (Finite 0)"
  by (simp add: largest_of_def)

lemma largest_of_unique:
  assumes "largest_of v1 v2 S r" "largest_of v1 v2 S r'"
  shows "r = r'"
proof -
  have 1: "\<not> double_gt r r'"
    using assms by (auto simp: largest_of_def)
  have 2: "\<not> double_gt r' r"
    using assms by (auto simp: largest_of_def)
  from assms 1 2 show ?thesis
    by (intro double_antisym) (simp_all add: largest_of_def)
qed

lemma largest_of_merge:
  assumes "largest_of v1 v2 S r" "largest_of v1 v2 T t"
  shows "largest_of v1 v2 (S \<union> T) (if double_gt t r then t else r)"
proof (cases "double_gt t r")
  case True
  have "\<not> double_gt (absdiff v1 v2 i) t" if "i \<in> S" for i
    using assms(1) that by (intro double_gt_upper[OF True]) (simp add: largest_of_def)
  with True assms show ?thesis
    by (auto simp: largest_of_def)
next
  case False
  have "\<not> double_gt (absdiff v1 v2 i) r" if "i \<in> T" for i
  proof (rule double_le_trans[OF _ _ False])
    show "t \<noteq> NaN" using assms(2) by (simp add: largest_of_def)
    show "\<not> double_gt (absdiff v1 v2 i) t" using assms(2) that by (simp add: largest_of_def)
  qed
  with False assms show ?thesis
    by (auto simp: largest_of_def)
qed

lemma largest_of_step:
  assumes "largest_of v1 v2 S r"
  shows "largest_of v1 v2 (insert j S) (if double_gt (absdiff v1 v2 j) r then absdiff v1 v2 j else r)"
proof (cases "double_gt (absdiff v1 v2 j) r")
  case True
  have "\<not> double_gt (absdiff v1 v2 i) (absdiff v1 v2 j)" if "i \<in> S" for i
    using assms that by (intro double_gt_upper[OF True]) (simp add: largest_of_def)
  moreover have "\<not> double_gt (Finite 0) (absdiff v1 v2 j)"
    by (simp add: absdiff_def double_fabs_nonneg)
  ultimately show ?thesis
    using True double_gt_not_NaN[OF True] double_gt_irrefl by (auto simp: largest_of_def)
next
  case False
  with assms show ?thesis
    by (auto simp: largest_of_def)
qed

lemma residual_step_in_range:
  assumes "0 \<le> i" "i < int (length v1)" "i < int (length v2)"
  shows "residual_step v1 v2 i r = Inr (if double_gt (absdiff v1 v2 i) r then absdiff v1 v2 i else r)"
  using assms by (simp add: residual_step_def read_at_def absdiff_def Let_def)

lemma for_each_residual:
  assumes "\<forall>i\<in>set js. 0 \<le> i \<and> i < int (length v1) \<and> i < int (length v2)"
    and "largest_of v1 v2 S r"
  shows "\<exists>r'. for_each js (residual_step v1 v2) r = Inr r' \<and> largest_of v1 v2 (S \<union> set js) r'"
  using assms
proof (induction js arbitrary: S r)
  case Nil
  then show ?case by simp
next
  case (Cons j js)
  let ?r = "if double_gt (absdiff v1 v2 j) r then absdiff v1 v2 j else r"
  have step: "residual_step v1 v2 j r = Inr ?r"
    using Cons.prems(1) by (intro residual_step_in_range) simp_all
  have "largest_of v1 v2 (insert j S) ?r"
    by (rule largest_of_step[OF Cons.prems(2)])
  moreover have "\<forall>i\<in>set js. 0 \<le> i \<and> i < int (length v1) \<and> i < int (length v2)"
    using Cons.prems(1) by simp
  ultimately obtain r' where "for_each js (residual_step v1 v2) ?r = Inr r'"
    "largest_of v1 v2 (insert j S \<union> set js) r'"
    using Cons.IH by blast
  then show ?case
    using step by (simp del: if_split)
qed

lemma omp_parallel_residual:
  assumes "\<forall>i\<in>set (concat threads). 0 \<le> i \<and> i < int (length v1) \<and> i < int (length v2)"
    and "largest_of v1 v2 S r"
  shows "\<exists>r'. omp_parallel v1 v2 threads r = Inr r'
            \<and> largest_of v1 v2 (S \<union> set (concat threads)) r'"
  using assms
proof (induction threads arbitrary: S r)
  case Nil
  then show ?case by simp
next
  case (Cons js threads)
  have "\<forall>i\<in>set js. 0 \<le> i \<and> i < int (length v1) \<and> i < int (length v2)"
    using Cons.prems(1) by simp
  from for_each_residual[OF this largest_of_empty]
  obtain t where t: "for_each js (residual_step v1 v2) (Finite 0) = Inr t"
    "largest_of v1 v2 (set js) t"
    by auto
  let ?r = "if double_gt t r then t else r"
  have "largest_of v1 v2 (S \<union> set js) ?r"
    by (rule largest_of_merge[OF Cons.prems(2) t(2)])
  moreover have "\<forall>i\<in>set (concat threads). 0 \<le> i \<and> i < int (length v1) \<and> i < int (length v2)"
    using Cons.prems(1) by simp
  ultimately obtain r' where "omp_parallel v1 v2 threads ?r = Inr r'"
    "largest_of v1 v2 (S \<union> set js \<union> set (concat threads)) r'"
    using Cons.IH by blast
  then show ?case
    using t(1) by (simp del: if_split add: Un_assoc)
qed

lemma local_residual:
  assumes "n \<le> int (length v1)" and "n \<le> int (length v2)" and "valid_build n build"
  shows "\<exists>r. (case build of
                NoOpenMP \<Rightarrow> for_loop 0 n (residual_step v1 v2) (Finite 0)
              | OpenMP threads \<Rightarrow> omp_parallel v1 v2 threads (Finite 0)) = Inr r
            \<and> is_max_abs_diff n v1 v2 r"
proof (cases build)
  case NoOpenMP
  have "\<forall>i\<in>set [0..n - 1]. 0 \<le> i \<and> i < int (length v1) \<and> i < int (length v2)"
    using assms(1,2) by auto
  from for_each_residual[OF this largest_of_empty] show ?thesis
    using NoOpenMP by (simp add: for_loop_for_each is_max_abs_diff_def)
next
  case (OpenMP threads)
  then have "mset (concat threads) = mset [0..n - 1]"
    using assms(3) by (simp add: valid_schedule_def)
  then have s: "set (concat threads) = set [0..n - 1]"
    by (rule mset_eq_setD)
  then have "\<forall>i\<in>set (concat threads). 0 \<le> i \<and> i < int (length v1) \<and> i < int (length v2)"
    using assms(1,2) by auto
  from omp_parallel_residual[OF this largest_of_empty] show ?thesis
    using OpenMP s by (simp add: is_max_abs_diff_def)
qed

lemma is_max_abs_diff_same:
  assumes "is_max_abs_diff n v v r"
  shows "r = Finite 0"
proof -
  have "r = Finite 0 \<or> (\<exists>i. r = absdiff v v i)" "r \<noteq> NaN"
    using assms by (auto simp: is_max_abs_diff_def largest_of_def)
  then show ?thesis
    using absdiff_same[of v] by metis
qed

lemma is_max_abs_diff_none:
  assumes "is_max_abs_diff 0 v1 v2 r"
  shows "r = Finite 0"
  using assms by (simp add: is_max_abs_diff_def largest_of_def)

section \<open>Properties of ComputeResidual\<close>

text \<open>
  C10: ComputeResidual returns the status 0 for every input: for every \<open>n\<close>, every pair
  of vectors that hold at least \<open>n\<close> elements, every build and every contribution of other
  processes, the routine returns, and the status it returns is 0.
\<close>

theorem ComputeResidual_status:
  assumes "n \<le> int (length v1)" and "n \<le> int (length v2)" and "valid_build n build"
  shows "(\<exists>residual. ComputeResidual build others n v1 v2 = Inr (0, residual)) \<and>
         (\<forall>status residual.
            ComputeResidual build others n v1 v2 = Inr (status, residual) \<longrightarrow> status = 0)"
proof -
  from local_residual[OF assms] obtain r where
    "(case build of
        NoOpenMP \<Rightarrow> for_loop 0 n (residual_step v1 v2) (Finite 0)
      | OpenMP threads \<Rightarrow> omp_parallel v1 v2 threads (Finite 0)) = Inr r"
    by blast
  then show ?thesis
    by (simp add: ComputeResidual_def)
qed

theorem ComputeResidual_status_witness:
  "(3::int) \<le> int (length [Finite 1, Finite 5, Finite 2])
   \<and> (3::int) \<le> int (length [Finite 1, Finite 2, NaN])
   \<and> valid_build 3 (OpenMP [[2], [0, 1]])
   \<and> (\<exists>residual. ComputeResidual (OpenMP [[2], [0, 1]]) [Finite 4] 3
         [Finite 1, Finite 5, Finite 2] [Finite 1, Finite 2, NaN] = Inr (0, residual))"
proof -
  have v: "valid_build 3 (OpenMP [[2], [0, 1]])"
    by code_simp
  have l: "(3::int) \<le> int (length [Finite 1, Finite 5, Finite 2])"
    "(3::int) \<le> int (length [Finite 1, Finite 2, NaN])"
    by simp_all
  show ?thesis
    using v l ComputeResidual_status [OF l v, of "[Finite 4]"] by blast
qed

text \<open>
  Two runs of a single process on one element.  The difference of \<open>10 ^ 16\<close> and 1 is
  rounded to \<open>10 ^ 16\<close>; the difference of \<open>2 ^ 1023\<close> and \<open>- (2 ^ 1023)\<close> overflows, and
  the residual is infinite.
\<close>

lemma ComputeResidual_rounds:
  "ComputeResidual NoOpenMP [] 1 [Finite 10000000000000000] [Finite 1]
     = Inr (0, Finite 10000000000000000)"
  by (simp add: ComputeResidual_def for_loop.simps residual_step_def read_at_def
      MPI_Allreduce_MAX_def double_eval)

lemma ComputeResidual_overflows:
  "ComputeResidual NoOpenMP [] 1 [Finite (2 ^ 1023)] [Finite (- (2 ^ 1023))] = Inr (0, PInf)"
  by (simp add: ComputeResidual_def for_loop.simps residual_step_def read_at_def
      MPI_Allreduce_MAX_def round_double_overflow pow2_def)

text \<open>
  C1 as stated fails on a difference that is NaN: with the single elements NaN and 0 the
  absolute difference is NaN, the only value over which the maximum is taken, and the
  comparison \<^verbatim>\<open>diff > local_residual\<close> is false, so that the residual stays 0.
\<close>

theorem ComputeResidual_skips_NaN:
  "ComputeResidual NoOpenMP [] 1 [NaN] [Finite 0] = Inr (0, Finite 0)
   \<and> absdiff [NaN] [Finite 0] 0 = NaN
   \<and> ComputeResidual NoOpenMP [] 1 [NaN] [Finite 0] \<noteq> Inr (0, absdiff [NaN] [Finite 0] 0)"
  by (simp add: ComputeResidual_def for_loop.simps residual_step_def read_at_def
      MPI_Allreduce_MAX_def absdiff_def)

text \<open>
  C1, as amended: in a single-process run (no contribution of another process), for
  \<open>n \<ge> 0\<close> and vectors holding \<open>n\<close> elements, the value stored in \<^verbatim>\<open>*residual\<close> is the
  largest of the double-precision values \<^verbatim>\<open>fabs(v1[i] - v2[i])\<close> over \<open>0 \<le> i < n\<close> that are
  not NaN, and 0 when there is none; this determines the value.  It is 0 when the vectors
  are identical and 0 when \<open>n = 0\<close>.  This holds for the build without OpenMP and for
  every schedule of the build with OpenMP.
\<close>

theorem ComputeResidual_largest_difference:
  assumes "0 \<le> n" and "n \<le> int (length v1)" and "n \<le> int (length v2)" and "valid_build n build"
  shows "\<exists>r. ComputeResidual build [] n v1 v2 = Inr (0, r)
            \<and> is_max_abs_diff n v1 v2 r
            \<and> (\<forall>r'. is_max_abs_diff n v1 v2 r' \<longrightarrow> r' = r)
            \<and> (v1 = v2 \<longrightarrow> r = Finite 0)
            \<and> (n = 0 \<longrightarrow> r = Finite 0)"
proof -
  from local_residual[OF assms(2-4)] obtain r where r:
    "(case build of
        NoOpenMP \<Rightarrow> for_loop 0 n (residual_step v1 v2) (Finite 0)
      | OpenMP threads \<Rightarrow> omp_parallel v1 v2 threads (Finite 0)) = Inr r"
    "is_max_abs_diff n v1 v2 r"
    by blast
  have "ComputeResidual build [] n v1 v2 = Inr (0, r)"
    using r(1) by (simp add: ComputeResidual_def MPI_Allreduce_MAX_def)
  moreover have "\<forall>r'. is_max_abs_diff n v1 v2 r' \<longrightarrow> r' = r"
    using r(2) largest_of_unique by (auto simp: is_max_abs_diff_def)
  moreover have "v1 = v2 \<longrightarrow> r = Finite 0"
    using r(2) is_max_abs_diff_same by blast
  moreover have "n = 0 \<longrightarrow> r = Finite 0"
    using r(2) is_max_abs_diff_none by blast
  ultimately show ?thesis
    using r(2) by blast
qed

theorem ComputeResidual_largest_difference_witness:
  "(0::int) \<le> 3
   \<and> (3::int) \<le> int (length [Finite 1, Finite 5, Finite 2])
   \<and> (3::int) \<le> int (length [Finite 1, Finite 2, NaN])
   \<and> valid_build 3 (OpenMP [[2], [0, 1]])
   \<and> ComputeResidual (OpenMP [[2], [0, 1]]) [] 3
         [Finite 1, Finite 5, Finite 2] [Finite 1, Finite 2, NaN] = Inr (0, Finite 3)
   \<and> is_max_abs_diff 3 [Finite 1, Finite 5, Finite 2] [Finite 1, Finite 2, NaN] (Finite 3)"
proof -
  have v: "valid_build 3 (OpenMP [[2], [0, 1]])"
    by code_simp
  have l: "(3::int) \<le> int (length [Finite 1, Finite 5, Finite 2])"
    "(3::int) \<le> int (length [Finite 1, Finite 2, NaN])"
    by simp_all
  have c: "ComputeResidual (OpenMP [[2], [0, 1]]) [] 3
         [Finite 1, Finite 5, Finite 2] [Finite 1, Finite 2, NaN] = Inr (0, Finite 3)"
    by (simp add: ComputeResidual_def residual_step_def read_at_def MPI_Allreduce_MAX_def
        double_eval)
  have z: "(0::int) \<le> 3"
    by simp
  from ComputeResidual_largest_difference [OF z l v]
  have "is_max_abs_diff 3 [Finite 1, Finite 5, Finite 2] [Finite 1, Finite 2, NaN] (Finite 3)"
    unfolding c by blast
  with z v l c show ?thesis
    by blast
qed

text \<open>
  When no difference is NaN and there is an element, the stored value is the difference at
  some index, and no difference is greater: it is the maximum of the differences.
\<close>

lemma ComputeResidual_max_without_NaN:
  assumes "0 < n" and "n \<le> int (length v1)" and "n \<le> int (length v2)" and "valid_build n build"
    and "\<forall>i\<in>set [0..n - 1]. absdiff v1 v2 i \<noteq> NaN"
  shows "\<exists>r. ComputeResidual build [] n v1 v2 = Inr (0, r)
            \<and> (\<exists>i\<in>set [0..n - 1]. r = absdiff v1 v2 i)
            \<and> (\<forall>i\<in>set [0..n - 1]. \<not> double_gt (absdiff v1 v2 i) r)"
proof -
  from local_residual[OF assms(2-4)] obtain r where r:
    "(case build of
        NoOpenMP \<Rightarrow> for_loop 0 n (residual_step v1 v2) (Finite 0)
      | OpenMP threads \<Rightarrow> omp_parallel v1 v2 threads (Finite 0)) = Inr r"
    "largest_of v1 v2 (set [0..n - 1]) r"
    unfolding is_max_abs_diff_def by blast
  have run: "ComputeResidual build [] n v1 v2 = Inr (0, r)"
    using r(1) by (simp add: ComputeResidual_def MPI_Allreduce_MAX_def)
  have upper: "\<forall>i\<in>set [0..n - 1]. \<not> double_gt (absdiff v1 v2 i) r"
    using r(2) by (simp add: largest_of_def)
  have first: "0 \<in> set [0..n - 1]"
    using assms(1) by simp
  have "\<exists>i\<in>set [0..n - 1]. r = absdiff v1 v2 i"
  proof (cases "r = Finite 0")
    case True
    have "absdiff v1 v2 0 = Finite 0"
    proof (rule double_antisym)
      show "absdiff v1 v2 0 \<noteq> NaN" using assms(5) first by blast
      show "Finite 0 \<noteq> NaN" by simp
      show "\<not> double_gt (absdiff v1 v2 0) (Finite 0)" using upper first True by blast
      show "\<not> double_gt (Finite 0) (absdiff v1 v2 0)"
        by (simp add: absdiff_def double_fabs_nonneg)
    qed
    with True first show ?thesis by metis
  next
    case False
    with r(2) show ?thesis by (simp add: largest_of_def)
  qed
  with run upper show ?thesis
    by blast
qed

section \<open>GenerateProblem: the loops\<close>

subsection \<open>The stencil as a list of columns\<close>

lemma stencil_entry_write: "stencil_entry G geom g sz sy sx row = write_entry g (curcol G geom g sz sy sx) row"
  by (simp add: stencil_entry_def write_entry_def Let_def)

lemma fold_guard: "fold (\<lambda>s r. if p s then f s r else r) xs r = fold f (filter p xs) r"
  by (induction xs arbitrary: r) simp_all

lemma fold_fold_map:
  "(\<And>s r. f s r = fold w (h s) r) \<Longrightarrow> fold f xs r = fold w (concat (map h xs)) r"
  by (induction xs arbitrary: r) simp_all

lemma stencil_sx_fold:
  "stencil_sx G geom gix g sz sy row =
     fold (write_entry g) (map (\<lambda>sx. curcol G geom g sz sy sx)
        (filter (in_domain G gix (gnx geom)) [- 1, 0, 1])) row"
proof -
  have "stencil_sx G geom gix g sz sy row =
      fold (\<lambda>sx. write_entry g (curcol G geom g sz sy sx)) (filter (in_domain G gix (gnx geom)) [- 1, 0, 1]) row"
    unfolding stencil_sx_def stencil_entry_write in_domain_def by (rule fold_guard)
  then show ?thesis
    by (simp only: fold_map comp_def)
qed

lemma stencil_sy_fold:
  "stencil_sy G geom gix giy g sz row =
     fold (write_entry g) (concat (map (\<lambda>sy.
         map (\<lambda>sx. curcol G geom g sz sy sx)
           (filter (in_domain G gix (gnx geom)) [- 1, 0, 1]))
         (filter (in_domain G giy (gny geom)) [- 1, 0, 1]))) row"
proof -
  have "stencil_sy G geom gix giy g sz row =
      fold (\<lambda>sy. stencil_sx G geom gix g sz sy) (filter (in_domain G giy (gny geom)) [- 1, 0, 1]) row"
    unfolding stencil_sy_def in_domain_def by (rule fold_guard)
  also have "\<dots> = fold (write_entry g) (concat (map (\<lambda>sy.
         map (\<lambda>sx. curcol G geom g sz sy sx)
           (filter (in_domain G gix (gnx geom)) [- 1, 0, 1]))
         (filter (in_domain G giy (gny geom)) [- 1, 0, 1]))) row"
    by (rule fold_fold_map) (rule stencil_sx_fold)
  finally show ?thesis .
qed

lemma stencil_sz_fold:
  "stencil_sz G geom gix giy giz g row = fold (write_entry g) (stencil_cols G geom gix giy giz g) row"
proof -
  have "stencil_sz G geom gix giy giz g row =
      fold (\<lambda>sz. stencil_sy G geom gix giy g sz) (filter (in_domain G giz (gnz geom)) [- 1, 0, 1]) row"
    unfolding stencil_sz_def in_domain_def by (rule fold_guard)
  also have "\<dots> = fold (write_entry g) (stencil_cols G geom gix giy giz g) row"
    unfolding stencil_cols_def by (rule fold_fold_map) (rule stencil_sy_fold)
  finally show ?thesis .
qed

lemma write_entry_sel:
  "row_values (write_entry g c row) = row_values row @ [if c = g then 27 else - 1]"
  "row_indG (write_entry g c row) = row_indG row @ [c]"
  "row_diagonal (write_entry g c row) = (if c = g then Some (length (row_values row)) else row_diagonal row)"
  "numberOfNonzerosInRow (write_entry g c row) = numberOfNonzerosInRow row + 1"
  by (simp_all add: write_entry_def)

lemma fold_write_entry_snoc:
  "fold (write_entry g) (cs @ [c]) row = write_entry g c (fold (write_entry g) cs row)"
  by simp

lemma written_indG: "row_indG (fold (write_entry g) cs row) = row_indG row @ cs"
  by (induction cs arbitrary: row) (simp_all add: write_entry_sel)

lemma written_values:
  "row_values (fold (write_entry g) cs row) = row_values row @ map (\<lambda>c. if c = g then 27 else - 1) cs"
  by (induction cs arbitrary: row) (simp_all add: write_entry_sel)

lemma written_count:
  "numberOfNonzerosInRow (fold (write_entry g) cs row) = numberOfNonzerosInRow row + int (length cs)"
  by (induction cs arbitrary: row) (simp_all add: write_entry_sel)

lemma written_diagonal_points:
  assumes "row_diagonal (fold (write_entry g) cs empty_row) = Some k"
  shows "k < length cs \<and> cs ! k = g"
  using assms
proof (induction cs arbitrary: k rule: rev_induct)
  case Nil
  then show ?case by (simp add: empty_row_def new_row_def)
next
  case (snoc c cs)
  show ?case
  proof (cases "c = g")
    case True
    with snoc.prems have "k = length cs"
      by (simp add: write_entry_sel written_values empty_row_def new_row_def)
    with True show ?thesis by simp
  next
    case False
    with snoc.prems have "row_diagonal (fold (write_entry g) cs empty_row) = Some k"
      by (simp add: write_entry_sel)
    then have "k < length cs \<and> cs ! k = g" by (rule snoc.IH)
    then show ?thesis by (simp add: nth_append)
  qed
qed

lemma written_diagonal_set:
  assumes "g \<in> set cs"
  shows "\<exists>k. row_diagonal (fold (write_entry g) cs empty_row) = Some k"
  using assms
proof (induction cs rule: rev_induct)
  case Nil
  then show ?case by simp
next
  case (snoc c cs)
  then show ?case
    by (cases "c = g") (auto simp: write_entry_sel)
qed

subsection \<open>Arithmetic without overflow\<close>

lemma wrap_fits: "fits t v \<Longrightarrow> wrap t v = v"
proof -
  assume "fits t v"
  then have "0 \<le> v + 2 ^ (bits t - 1)" "v + 2 ^ (bits t - 1) < 2 ^ bits t"
    by (cases t; simp add: fits_def)+
  then have "(v + 2 ^ (bits t - 1)) mod 2 ^ bits t = v + 2 ^ (bits t - 1)"
    by (rule mod_pos_pos_trivial)
  then show ?thesis by (simp add: wrap_def)
qed

lemma fits_wrap: "fits t (wrap t v)"
proof -
  have "0 \<le> (v + 2 ^ (bits t - 1)) mod 2 ^ bits t" "(v + 2 ^ (bits t - 1)) mod 2 ^ bits t < 2 ^ bits t"
    by simp_all
  then show ?thesis
    by (cases t; simp add: fits_def wrap_def)
qed

lemma fits_between: "fits t lo \<Longrightarrow> fits t hi \<Longrightarrow> lo \<le> v \<Longrightarrow> v \<le> hi \<Longrightarrow> fits t v"
  by (auto simp: fits_def)

lemma fits_CInt: "fits CInt v \<Longrightarrow> fits t v"
  by (cases t) (auto simp: fits_def)

lemma fits_small [simp]: "fits t (- 1)" "fits t 0" "fits t 1" "fits t 27"
  by (cases t; simp add: fits_def)+

lemma fits_neg: "0 \<le> v \<Longrightarrow> fits t v \<Longrightarrow> fits t (- v)"
  by (auto simp: fits_def)

lemma c_add_fits: "fits t (a + b) \<Longrightarrow> c_add t a b = a + b"
  by (simp add: c_add_def wrap_fits)

lemma c_mul_fits: "fits t (a * b) \<Longrightarrow> c_mul t a b = a * b"
  by (simp add: c_mul_def wrap_fits)

lemma digit_bounds:
  fixes i j n m :: int
  assumes "0 \<le> i" "i < n" "0 \<le> j" "j < m"
  shows "0 \<le> j * n + i" and "j * n + i < m * n"
proof -
  show "0 \<le> j * n + i" using assms by simp
  have "j * n + i < (j + 1) * n" using assms by (simp add: algebra_simps)
  also have "(j + 1) * n \<le> m * n" using assms by (intro mult_right_mono) auto
  finally show "j * n + i < m * n" .
qed

lemma lin_alt: "lin n1 n2 k j i = (k * n2 + j) * n1 + i"
  by (simp add: lin_def algebra_simps)

lemma lin_bounds:
  assumes "0 \<le> i" "i < n1" "0 \<le> j" "j < n2" "0 \<le> k" "k < n3"
  shows "0 \<le> lin n1 n2 k j i" and "lin n1 n2 k j i < n1 * n2 * n3"
proof -
  have J: "0 \<le> k * n2 + j" "k * n2 + j < n3 * n2"
    using digit_bounds[OF assms(3,4,5,6)] by simp_all
  show "0 \<le> lin n1 n2 k j i"
    unfolding lin_alt using digit_bounds(1)[OF assms(1,2) J] .
  have "lin n1 n2 k j i < n3 * n2 * n1"
    unfolding lin_alt using digit_bounds(2)[OF assms(1,2) J] .
  then show "lin n1 n2 k j i < n1 * n2 * n3"
    by (simp add: mult.commute mult.left_commute)
qed

lemma lin_inject:
  assumes "0 \<le> i" "i < n1" "0 \<le> j" "j < n2" "0 \<le> i'" "i' < n1" "0 \<le> j'" "j' < n2"
    and "lin n1 n2 k j i = lin n1 n2 k' j' i'"
  shows "k = k' \<and> j = j' \<and> i = i'"
proof -
  have e: "(k * n2 + j) * n1 + i = (k' * n2 + j') * n1 + i'"
    using assms(9) by (simp add: lin_alt)
  have "((k * n2 + j) * n1 + i) mod n1 = i" "((k' * n2 + j') * n1 + i') mod n1 = i'"
    using assms by simp_all
  with e have i: "i = i'" by simp
  have "((k * n2 + j) * n1 + i) div n1 = k * n2 + j" "((k' * n2 + j') * n1 + i') div n1 = k' * n2 + j'"
    using assms by simp_all
  with e have e2: "k * n2 + j = k' * n2 + j'" by simp
  have "(k * n2 + j) mod n2 = j" "(k' * n2 + j') mod n2 = j'"
    using assms by simp_all
  with e2 have j: "j = j'" by simp
  have "(k * n2 + j) div n2 = k" "(k' * n2 + j') div n2 = k'"
    using assms by simp_all
  with e2 have "k = k'" by simp
  with i j show ?thesis by simp
qed

lemma lin_strict_mono:
  assumes "0 \<le> i" "i < n1" "0 \<le> j" "j < n2" "0 \<le> i'" "i' < n1" "0 \<le> j'" "j' < n2"
    and "k < k' \<or> (k = k' \<and> (j < j' \<or> (j = j' \<and> i < i')))"
  shows "lin n1 n2 k j i < lin n1 n2 k' j' i'"
proof -
  have d: "a < b \<Longrightarrow> 0 \<le> c \<Longrightarrow> c < n \<Longrightarrow> 0 \<le> c' \<Longrightarrow> a * n + c < b * n + c'" for a b c c' n :: int
  proof -
    assume "a < b" "0 \<le> c" "c < n" "0 \<le> c'"
    then have "a * n + c < (a + 1) * n" by (simp add: algebra_simps)
    also have "(a + 1) * n \<le> b * n" using \<open>a < b\<close> \<open>0 \<le> c\<close> \<open>c < n\<close> by (intro mult_right_mono) auto
    finally show ?thesis using \<open>0 \<le> c'\<close> by simp
  qed
  from assms(9) consider "k < k'" | "k = k'" "j < j'" | "k = k'" "j = j'" "i < i'" by blast
  then show ?thesis
  proof cases
    case 1
    then have "k * n2 + j < k' * n2 + j'" by (rule d[OF _ assms(3,4,7)])
    then show ?thesis unfolding lin_alt by (rule d[OF _ assms(1,2,5)])
  next
    case 2
    then have "k * n2 + j < k' * n2 + j'" by simp
    then show ?thesis unfolding lin_alt by (rule d[OF _ assms(1,2,5)])
  next
    case 3
    then show ?thesis by (simp add: lin_alt)
  qed
qed

subsection \<open>The columns of a row\<close>

lemma set_offsets: "s \<in> set (offsets g n) \<longleftrightarrow> s \<in> {- 1, 0, 1} \<and> 0 \<le> g + s \<and> g + s < n"
  by (auto simp: offsets_def)

lemma sorted_offsets: "sorted_wrt (<) (offsets g n)"
  unfolding offsets_def by (rule sorted_wrt_filter) simp

lemma length_offsets:
  assumes "0 \<le> g" "g < n"
  shows "length (offsets g n) = (if 0 < g then 1 else 0) + 1 + (if g + 1 < n then 1 else 0)"
  using assms by (simp add: offsets_def)

lemma zero_in_offsets: "0 \<le> g \<Longrightarrow> g < n \<Longrightarrow> 0 \<in> set (offsets g n)"
  by (simp add: set_offsets)

lemma in_domain_offsets:
  assumes "0 \<le> g" "g < n" "fits G n"
  shows "filter (in_domain G g n) [- 1, 0, 1] = offsets g n"
  unfolding offsets_def
proof (rule filter_cong[OF refl])
  fix s :: int
  assume "s \<in> set [- 1, 0, 1]"
  then have b: "- 1 \<le> g + s" "g + s \<le> n"
    using assms by auto
  have "fits G (g + s)"
    by (rule fits_between[OF fits_small(1) assms(3) b])
  then show "in_domain G g n s = (- 1 < g + s \<and> g + s < n)"
    by (simp add: in_domain_def c_add_fits)
qed

lemma fits_unit_mult:
  assumes "s \<in> {- 1, 0, 1}" "0 \<le> v" "fits t v"
  shows "fits t (s * v)"
proof -
  from assms(1) consider "s = - 1" | "s = 0" | "s = 1" by auto
  then show ?thesis
  proof cases
    case 1
    then show ?thesis using fits_neg[OF assms(2,3)] by simp
  next
    case 2
    then show ?thesis by simp
  next
    case 3
    then show ?thesis using assms(3) by simp
  qed
qed

lemma curcol_lin:
  assumes gx: "gnx geom = Nx" and gy: "gny geom = Ny"
    and f: "fits CInt Nx" "fits CInt (Nx * Ny)" "fits G (Nx * Ny * Nz)"
    and p: "0 < Nx" "0 < Ny"
    and c: "0 \<le> gix" "gix < Nx" "0 \<le> giy" "giy < Ny" "0 \<le> giz" "giz < Nz"
    and sz: "sz \<in> set (offsets giz Nz)" and sy: "sy \<in> set (offsets giy Ny)"
    and sx: "sx \<in> set (offsets gix Nx)"
  shows "curcol G geom (lin Nx Ny giz giy gix) sz sy sx = lin Nx Ny (giz + sz) (giy + sy) (gix + sx)"
proof -
  have u: "sz \<in> {- 1, 0, 1}" "sy \<in> {- 1, 0, 1}" "sx \<in> {- 1, 0, 1}"
    and z: "0 \<le> giz + sz" "giz + sz < Nz" and y: "0 \<le> giy + sy" "giy + sy < Ny"
    and x: "0 \<le> gix + sx" "gix + sx < Nx"
    using sz sy sx by (simp_all add: set_offsets)
  have fG: "fits G v" if "0 \<le> v" "v < Nx * Ny * Nz" for v
    by (rule fits_between[OF fits_small(2) f(3) that(1)]) (use that(2) in simp)
  have nn: "0 \<le> Nx" "0 \<le> Nx * Ny"
    using p by simp_all
  have a1: "c_mul CInt sz Nx = sz * Nx"
    by (rule c_mul_fits) (rule fits_unit_mult[OF u(1) nn(1) f(1)])
  have "fits CInt (sz * (Nx * Ny))"
    by (rule fits_unit_mult[OF u(1) nn(2) f(2)])
  then have "fits CInt (sz * Nx * Ny)"
    by (simp only: mult.assoc)
  then have a2: "c_mul CInt (sz * Nx) Ny = sz * Nx * Ny"
    by (rule c_mul_fits)
  have e3: "lin Nx Ny giz giy gix + sz * Nx * Ny = lin Nx Ny (giz + sz) giy gix"
    by (simp add: lin_def algebra_simps)
  have a3: "c_add G (lin Nx Ny giz giy gix) (sz * Nx * Ny) = lin Nx Ny (giz + sz) giy gix"
    unfolding e3[symmetric] by (rule c_add_fits, unfold e3, rule fG) (rule lin_bounds[OF c(1,2,3,4) z])+
  have a4: "c_mul CInt sy Nx = sy * Nx"
    by (rule c_mul_fits) (rule fits_unit_mult[OF u(2) nn(1) f(1)])
  have e5: "lin Nx Ny (giz + sz) giy gix + sy * Nx = lin Nx Ny (giz + sz) (giy + sy) gix"
    by (simp add: lin_def algebra_simps)
  have a5: "c_add G (lin Nx Ny (giz + sz) giy gix) (sy * Nx) = lin Nx Ny (giz + sz) (giy + sy) gix"
    unfolding e5[symmetric] by (rule c_add_fits, unfold e5, rule fG) (rule lin_bounds[OF c(1,2) y z])+
  have e6: "lin Nx Ny (giz + sz) (giy + sy) gix + sx = lin Nx Ny (giz + sz) (giy + sy) (gix + sx)"
    by (simp add: lin_def algebra_simps)
  have a6: "c_add G (lin Nx Ny (giz + sz) (giy + sy) gix) sx = lin Nx Ny (giz + sz) (giy + sy) (gix + sx)"
    unfolding e6[symmetric] by (rule c_add_fits, unfold e6, rule fG) (rule lin_bounds[OF x y z])+
  show ?thesis
    by (simp only: curcol_def gx gy a1 a2 a3 a4 a5 a6)
qed

lemma stencil_cols_ideal:
  assumes gx: "gnx geom = Nx" and gy: "gny geom = Ny" and gz: "gnz geom = Nz"
    and f: "fits CInt Nx" "fits CInt Ny" "fits CInt Nz" "fits CInt (Nx * Ny)" "fits G (Nx * Ny * Nz)"
    and p: "0 < Nx" "0 < Ny"
    and c: "0 \<le> gix" "gix < Nx" "0 \<le> giy" "giy < Ny" "0 \<le> giz" "giz < Nz"
  shows "stencil_cols G geom gix giy giz (lin Nx Ny giz giy gix) = ideal_cols Nx Ny Nz gix giy giz"
proof -
  have ox: "filter (in_domain G gix Nx) [- 1, 0, 1] = offsets gix Nx"
    by (rule in_domain_offsets[OF c(1,2) fits_CInt[OF f(1)]])
  have oy: "filter (in_domain G giy Ny) [- 1, 0, 1] = offsets giy Ny"
    by (rule in_domain_offsets[OF c(3,4) fits_CInt[OF f(2)]])
  have oz: "filter (in_domain G giz Nz) [- 1, 0, 1] = offsets giz Nz"
    by (rule in_domain_offsets[OF c(5,6) fits_CInt[OF f(3)]])
  have "map (\<lambda>sz. concat (map (\<lambda>sy. map (\<lambda>sx. curcol G geom (lin Nx Ny giz giy gix) sz sy sx)
                (offsets gix Nx)) (offsets giy Ny))) (offsets giz Nz)
      = map (\<lambda>sz. concat (map (\<lambda>sy. map (\<lambda>sx. lin Nx Ny (giz + sz) (giy + sy) (gix + sx))
                (offsets gix Nx)) (offsets giy Ny))) (offsets giz Nz)"
  proof (rule map_cong[OF refl])
    fix sz assume sz: "sz \<in> set (offsets giz Nz)"
    have "map (\<lambda>sy. map (\<lambda>sx. curcol G geom (lin Nx Ny giz giy gix) sz sy sx) (offsets gix Nx)) (offsets giy Ny)
        = map (\<lambda>sy. map (\<lambda>sx. lin Nx Ny (giz + sz) (giy + sy) (gix + sx)) (offsets gix Nx)) (offsets giy Ny)"
    proof (rule map_cong[OF refl])
      fix sy assume sy: "sy \<in> set (offsets giy Ny)"
      show "map (\<lambda>sx. curcol G geom (lin Nx Ny giz giy gix) sz sy sx) (offsets gix Nx)
          = map (\<lambda>sx. lin Nx Ny (giz + sz) (giy + sy) (gix + sx)) (offsets gix Nx)"
        by (rule map_cong[OF refl]) (rule curcol_lin[OF gx gy f(1,4,5) p c sz sy])
    qed
    then show "concat (map (\<lambda>sy. map (\<lambda>sx. curcol G geom (lin Nx Ny giz giy gix) sz sy sx)
                (offsets gix Nx)) (offsets giy Ny))
      = concat (map (\<lambda>sy. map (\<lambda>sx. lin Nx Ny (giz + sz) (giy + sy) (gix + sx))
                (offsets gix Nx)) (offsets giy Ny))"
      by (rule arg_cong)
  qed
  then show ?thesis
    unfolding stencil_cols_def ideal_cols_def gx gy gz ox oy oz by (rule arg_cong)
qed

lemma length_ideal_cols:
  "length (ideal_cols Nx Ny Nz gix giy giz)
     = length (offsets giz Nz) * (length (offsets giy Ny) * length (offsets gix Nx))"
  by (simp add: ideal_cols_def length_concat comp_def sum_list_triv)

lemma set_ideal_cols:
  "c \<in> set (ideal_cols Nx Ny Nz gix giy giz) \<longleftrightarrow>
     (\<exists>sz\<in>set (offsets giz Nz). \<exists>sy\<in>set (offsets giy Ny). \<exists>sx\<in>set (offsets gix Nx).
        c = lin Nx Ny (giz + sz) (giy + sy) (gix + sx))"
  by (auto simp: ideal_cols_def)

lemma own_row_in_ideal_cols:
  assumes "0 \<le> gix" "gix < Nx" "0 \<le> giy" "giy < Ny" "0 \<le> giz" "giz < Nz"
  shows "lin Nx Ny giz giy gix \<in> set (ideal_cols Nx Ny Nz gix giy giz)"
  unfolding set_ideal_cols
  using zero_in_offsets[OF assms(5,6)] zero_in_offsets[OF assms(3,4)] zero_in_offsets[OF assms(1,2)]
  by force

lemma sorted_wrt_concat_map:
  assumes "sorted_wrt (<) xs"
    and "\<And>x. x \<in> set xs \<Longrightarrow> sorted_wrt (<) (f x)"
    and "\<And>x y a b. x \<in> set xs \<Longrightarrow> y \<in> set xs \<Longrightarrow> x < y \<Longrightarrow> a \<in> set (f x) \<Longrightarrow> b \<in> set (f y) \<Longrightarrow> a < b"
  shows "sorted_wrt (<) (concat (map f xs))"
  using assms
proof (induction xs)
  case Nil
  then show ?case by simp
next
  case (Cons x xs)
  have less: "\<forall>y\<in>set xs. x < y" and sorted: "sorted_wrt (<) xs"
    using Cons.prems(1) by simp_all
  have "sorted_wrt (<) (concat (map f xs))"
  proof (rule Cons.IH[OF sorted])
    fix y assume "y \<in> set xs"
    then show "sorted_wrt (<) (f y)" by (simp add: Cons.prems(2))
  next
    fix y z a b
    assume "y \<in> set xs" "z \<in> set xs" "y < z" "a \<in> set (f y)" "b \<in> set (f z)"
    then show "a < b" using Cons.prems(3)[of y z a b] by simp
  qed
  moreover have "sorted_wrt (<) (f x)"
    using Cons.prems(2) by simp
  moreover have "\<forall>a\<in>set (f x). \<forall>b\<in>set (concat (map f xs)). a < b"
  proof (intro ballI)
    fix a b assume a: "a \<in> set (f x)" and "b \<in> set (concat (map f xs))"
    then obtain y where y: "y \<in> set xs" "b \<in> set (f y)" by auto
    with less have "x < y" by simp
    then show "a < b" using Cons.prems(3)[of x y a b] a y by simp
  qed
  ultimately show ?case
    by (simp add: sorted_wrt_append)
qed

lemma sorted_ideal_cols: "sorted_wrt (<) (ideal_cols Nx Ny Nz gix giy giz)"
  unfolding ideal_cols_def
proof (intro sorted_wrt_concat_map sorted_offsets)
  fix sz sy
  assume "sz \<in> set (offsets giz Nz)" "sy \<in> set (offsets giy Ny)"
  have "sorted_wrt (\<lambda>a b. lin Nx Ny (giz + sz) (giy + sy) (gix + a) < lin Nx Ny (giz + sz) (giy + sy) (gix + b))
          (offsets gix Nx)"
    by (rule sorted_wrt_mono_rel[OF _ sorted_offsets]) (simp add: lin_def)
  then show "sorted_wrt (<) (map (\<lambda>sx. lin Nx Ny (giz + sz) (giy + sy) (gix + sx)) (offsets gix Nx))"
    by (simp add: sorted_wrt_map)
next
  fix sz sy sy' a b
  assume "sz \<in> set (offsets giz Nz)" "sy \<in> set (offsets giy Ny)" "sy' \<in> set (offsets giy Ny)" "sy < sy'"
    and "a \<in> set (map (\<lambda>sx. lin Nx Ny (giz + sz) (giy + sy) (gix + sx)) (offsets gix Nx))"
    and "b \<in> set (map (\<lambda>sx. lin Nx Ny (giz + sz) (giy + sy') (gix + sx)) (offsets gix Nx))"
  then obtain sx sx' where "a = lin Nx Ny (giz + sz) (giy + sy) (gix + sx)"
    "b = lin Nx Ny (giz + sz) (giy + sy') (gix + sx')"
    "0 \<le> gix + sx" "gix + sx < Nx" "0 \<le> gix + sx'" "gix + sx' < Nx"
    "0 \<le> giy + sy" "giy + sy < Ny" "0 \<le> giy + sy'" "giy + sy' < Ny"
    by (auto simp: set_offsets)
  then show "a < b"
    using \<open>sy < sy'\<close> by (simp add: lin_strict_mono)
next
  fix sz sz' a b
  assume "sz \<in> set (offsets giz Nz)" "sz' \<in> set (offsets giz Nz)" "sz < sz'"
    and "a \<in> set (concat (map (\<lambda>sy. map (\<lambda>sx. lin Nx Ny (giz + sz) (giy + sy) (gix + sx)) (offsets gix Nx))
                (offsets giy Ny)))"
    and "b \<in> set (concat (map (\<lambda>sy. map (\<lambda>sx. lin Nx Ny (giz + sz') (giy + sy) (gix + sx)) (offsets gix Nx))
                (offsets giy Ny)))"
  then obtain sx sx' sy sy' where "a = lin Nx Ny (giz + sz) (giy + sy) (gix + sx)"
    "b = lin Nx Ny (giz + sz') (giy + sy') (gix + sx')"
    "0 \<le> gix + sx" "gix + sx < Nx" "0 \<le> gix + sx'" "gix + sx' < Nx"
    "0 \<le> giy + sy" "giy + sy < Ny" "0 \<le> giy + sy'" "giy + sy' < Ny"
    by (auto simp: set_offsets)
  then show "a < b"
    using \<open>sz < sz'\<close> by (simp add: lin_strict_mono)
qed

subsection \<open>Rows and grid points\<close>

lemma int_div_less:
  fixes a b q :: int
  assumes "0 < b" "a < q * b"
  shows "a div b < q"
proof (rule ccontr)
  assume "\<not> a div b < q"
  then have "q * b \<le> (a div b) * b"
    using assms(1) by (intro mult_right_mono) simp_all
  moreover have "0 \<le> a mod b"
    using assms(1) by simp
  moreover have "a = (a div b) * b + a mod b"
    by simp
  ultimately show False
    using assms(2) by linarith
qed

lemma decode_lin:
  assumes "0 \<le> ix" "ix < nx geom" "0 \<le> iy" "iy < ny geom" "0 \<le> iz"
    and "r = nat (lin (nx geom) (ny geom) iz iy ix)"
  shows "row_ix geom r = ix" "row_iy geom r = iy" "row_iz geom r = iz"
proof -
  have "0 \<le> iz * ny geom + iy" using assms by simp
  then have "0 \<le> lin (nx geom) (ny geom) iz iy ix"
    unfolding lin_alt using assms by simp
  then have r: "int r = (iz * ny geom + iy) * nx geom + ix"
    using assms(6) by (simp add: lin_alt)
  show "row_ix geom r = ix"
    unfolding row_ix_def r using assms by simp
  have d: "int r div nx geom = iz * ny geom + iy"
    unfolding r using assms by simp
  show "row_iy geom r = iy"
    unfolding row_iy_def d using assms by simp
  show "row_iz geom r = iz"
    unfolding row_iz_def d using assms by simp
qed

lemma row_coords:
  assumes "0 < nx geom" "0 < ny geom" "0 < nz geom" "r < num_rows geom"
  shows "0 \<le> row_ix geom r" "row_ix geom r < nx geom"
    "0 \<le> row_iy geom r" "row_iy geom r < ny geom"
    "0 \<le> row_iz geom r" "row_iz geom r < nz geom"
    "lin (nx geom) (ny geom) (row_iz geom r) (row_iy geom r) (row_ix geom r) = int r"
proof -
  show "0 \<le> row_ix geom r" "row_ix geom r < nx geom" "0 \<le> row_iy geom r" "row_iy geom r < ny geom"
    using assms by (simp_all add: row_ix_def row_iy_def)
  show "0 \<le> row_iz geom r"
    using assms by (simp add: row_iz_def pos_imp_zdiv_nonneg_iff)
  have "int r < nx geom * ny geom * nz geom"
    using assms(4) by (simp add: num_rows_def)
  then have "int r < nz geom * ny geom * nx geom"
    by (simp add: mult.commute mult.left_commute)
  then have "int r div nx geom < nz geom * ny geom"
    by (rule int_div_less[OF assms(1)])
  then show "row_iz geom r < nz geom"
    unfolding row_iz_def by (rule int_div_less[OF assms(2)])
  show "lin (nx geom) (ny geom) (row_iz geom r) (row_iy geom r) (row_ix geom r) = int r"
    by (simp add: lin_alt row_ix_def row_iy_def row_iz_def)
qed

subsection \<open>Exact index arithmetic\<close>

lemma le_mult_pos:
  fixes a b :: int
  shows "0 \<le> a \<Longrightarrow> 1 \<le> b \<Longrightarrow> a \<le> a * b"
  using mult_left_mono[of 1 b a] by simp

lemma lin_wrapped:
  assumes "0 \<le> i" "i < n1" "0 \<le> j" "j < n2" "0 \<le> k" "k < n3" "fits t (n1 * n2 * n3)"
  shows "c_add t (c_add t (c_mul t (c_mul t k n1) n2) (c_mul t j n1)) i = lin n1 n2 k j i"
proof -
  have top: "lin n1 n2 k j i \<le> n1 * n2 * n3"
    using lin_bounds(2)[OF assms(1-6)] by simp
  have pos: "0 \<le> k * n1" "0 \<le> j * n1" "0 \<le> k * n1 * n2" "1 \<le> n2"
    using assms by simp_all
  have fit: "fits t v" if "0 \<le> v" "v \<le> lin n1 n2 k j i" for v
    by (rule fits_between[OF fits_small(2) assms(7) that(1)]) (use that(2) top in simp)
  have m: "k * n1 \<le> k * n1 * n2"
    by (rule le_mult_pos[OF pos(1,4)])
  have l: "lin n1 n2 k j i = k * n1 * n2 + j * n1 + i"
    by (simp only: lin_def)
  have 1: "c_mul t k n1 = k * n1"
  proof (rule c_mul_fits[OF fit])
    show "0 \<le> k * n1" by (rule pos(1))
    show "k * n1 \<le> lin n1 n2 k j i" unfolding l using m pos(2) assms(1) by linarith
  qed
  have 2: "c_mul t (k * n1) n2 = k * n1 * n2"
  proof (rule c_mul_fits[OF fit])
    show "0 \<le> k * n1 * n2" by (rule pos(3))
    show "k * n1 * n2 \<le> lin n1 n2 k j i" unfolding l using pos(2) assms(1) by linarith
  qed
  have 3: "c_mul t j n1 = j * n1"
  proof (rule c_mul_fits[OF fit])
    show "0 \<le> j * n1" by (rule pos(2))
    show "j * n1 \<le> lin n1 n2 k j i" unfolding l using pos(3) assms(1) by linarith
  qed
  have 4: "c_add t (k * n1 * n2) (j * n1) = k * n1 * n2 + j * n1"
  proof (rule c_add_fits[OF fit])
    show "0 \<le> k * n1 * n2 + j * n1" using pos(2,3) by linarith
    show "k * n1 * n2 + j * n1 \<le> lin n1 n2 k j i" unfolding l using assms(1) by linarith
  qed
  have 5: "c_add t (k * n1 * n2 + j * n1) i = k * n1 * n2 + j * n1 + i"
  proof (rule c_add_fits[OF fit])
    show "0 \<le> k * n1 * n2 + j * n1 + i" using pos(2,3) assms(1) by linarith
    show "k * n1 * n2 + j * n1 + i \<le> lin n1 n2 k j i" unfolding l by simp
  qed
  show ?thesis
    by (simp only: 1 2 3 4 5 lin_def)
qed

lemma global_coord_exact:
  assumes "0 \<le> i" "i < n" "0 \<le> ip" "ip < np" "fits CInt (n * np)"
  shows "global_coord L G ip n i = ip * n + i"
    and "0 \<le> ip * n + i" and "ip * n + i < n * np"
proof -
  show b: "0 \<le> ip * n + i" "ip * n + i < n * np"
    using digit_bounds[OF assms(1-4)] by (simp_all add: mult.commute)
  have q: "0 \<le> ip * n" "ip * n \<le> n * np"
    using assms(1,2,3) b(2) by (simp, linarith)
  have 1: "fits CInt (ip * n)"
    by (rule fits_between[OF fits_small(2) assms(5) q])
  have "fits CInt (ip * n + i)"
    by (rule fits_between[OF fits_small(2) assms(5) b(1)]) (use b(2) in simp)
  then have 2: "fits t (ip * n + i)" for t
    by (rule fits_CInt)
  show "global_coord L G ip n i = ip * n + i"
    by (simp add: global_coord_def c_mul_fits[OF 1] c_add_fits[OF 2] wrap_fits[OF 2])
qed

lemma extents:
  assumes "valid_geometry geom" "no_overflow L G geom"
  shows "gnx geom = global_nx geom" "gny geom = global_ny geom" "gnz geom = global_nz geom"
    and "0 < global_nx geom" "0 < global_ny geom" "0 < global_nz geom"
proof -
  show "gnx geom = global_nx geom" "gny geom = global_ny geom" "gnz geom = global_nz geom"
    using assms(2) by (simp_all add: no_overflow_def gnx_def gny_def gnz_def c_mul_fits
        global_nx_def global_ny_def global_nz_def)
  show "0 < global_nx geom" "0 < global_ny geom" "0 < global_nz geom"
    using assms(1) by (simp_all add: valid_geometry_def global_nx_def global_ny_def global_nz_def)
qed

lemma row_global_bounds:
  assumes "valid_geometry geom" "r < num_rows geom"
  shows "0 \<le> row_gix geom r" "row_gix geom r < global_nx geom"
    "0 \<le> row_giy geom r" "row_giy geom r < global_ny geom"
    "0 \<le> row_giz geom r" "row_giz geom r < global_nz geom"
proof -
  have p: "0 < nx geom" "0 < ny geom" "0 < nz geom"
    using assms(1) by (simp_all add: valid_geometry_def)
  note rc = row_coords[OF p assms(2)]
  have i: "0 \<le> ipx geom" "ipx geom < npx geom" "0 \<le> ipy geom" "ipy geom < npy geom"
    "0 \<le> ipz geom" "ipz geom < npz geom"
    using assms(1) by (simp_all add: valid_geometry_def)
  show "0 \<le> row_gix geom r" "row_gix geom r < global_nx geom"
    using digit_bounds[OF rc(1,2) i(1,2)] by (simp_all add: row_gix_def global_nx_def mult.commute)
  show "0 \<le> row_giy geom r" "row_giy geom r < global_ny geom"
    using digit_bounds[OF rc(3,4) i(3,4)] by (simp_all add: row_giy_def global_ny_def mult.commute)
  show "0 \<le> row_giz geom r" "row_giz geom r < global_nz geom"
    using digit_bounds[OF rc(5,6) i(5,6)] by (simp_all add: row_giz_def global_nz_def mult.commute)
qed


lemma row_global_distinct:
  assumes "valid_geometry geom" "r < num_rows geom" "r' < num_rows geom"
    and "row_global geom r = row_global geom r'"
  shows "r = r'"
proof -
  have p: "0 < nx geom" "0 < ny geom" "0 < nz geom"
    using assms(1) by (simp_all add: valid_geometry_def)
  note a = row_global_bounds[OF assms(1,2)] and b = row_global_bounds[OF assms(1,3)]
  have "row_giz geom r = row_giz geom r' \<and> row_giy geom r = row_giy geom r' \<and> row_gix geom r = row_gix geom r'"
    using assms(4) unfolding row_global_def by (rule lin_inject[OF a(1-4) b(1-4)])
  then have e: "row_iz geom r = row_iz geom r'" "row_iy geom r = row_iy geom r'" "row_ix geom r = row_ix geom r'"
    by (simp_all add: row_gix_def row_giy_def row_giz_def)
  have "int r = lin (nx geom) (ny geom) (row_iz geom r) (row_iy geom r) (row_ix geom r)"
    by (rule row_coords(7)[OF p assms(2), symmetric])
  also have "\<dots> = lin (nx geom) (ny geom) (row_iz geom r') (row_iy geom r') (row_ix geom r')"
    by (simp only: e)
  also have "\<dots> = int r'"
    by (rule row_coords(7)[OF p assms(3)])
  finally show ?thesis by simp
qed

lemma row_global_inject:
  assumes "valid_geometry geom" "no_overflow L G geom" "r < num_rows geom" "r' < num_rows geom"
    and "row_global geom r = row_global geom r'"
  shows "r = r'"
  by (rule row_global_distinct[OF assms(1,3,4,5)])

lemma local_nonzeros_Suc:
  "local_nonzeros geom (Suc k) = local_nonzeros geom k + int (length (row_cols geom k))"
  by (simp add: local_nonzeros_def)

lemma local_nonzeros_mono: "k \<le> n \<Longrightarrow> local_nonzeros geom k \<le> local_nonzeros geom n"
proof (induction n)
  case 0
  then show ?case by simp
next
  case (Suc n)
  then show ?case
    by (cases "k = Suc n") (simp_all add: local_nonzeros_Suc)
qed

lemma local_nonzeros_nonneg: "0 \<le> local_nonzeros geom k"
  using local_nonzeros_mono[of 0 k geom] by (simp add: local_nonzeros_def)

subsection \<open>One grid point\<close>

lemma no_overflow_sizes_fit: "no_overflow L G geom \<Longrightarrow> sizes_fit L G geom"
  by (simp add: no_overflow_def sizes_fit_def)

lemma extents_fit:
  assumes "valid_geometry geom" "sizes_fit L G geom"
  shows "gnx geom = global_nx geom" "gny geom = global_ny geom" "gnz geom = global_nz geom"
    and "0 < global_nx geom" "0 < global_ny geom" "0 < global_nz geom"
proof -
  show "gnx geom = global_nx geom" "gny geom = global_ny geom" "gnz geom = global_nz geom"
    using assms(2) by (simp_all add: sizes_fit_def gnx_def gny_def gnz_def c_mul_fits
        global_nx_def global_ny_def global_nz_def)
  show "0 < global_nx geom" "0 < global_ny geom" "0 < global_nz geom"
    using assms(1) by (simp_all add: valid_geometry_def global_nx_def global_ny_def global_nz_def)
qed

lemma length_stencil_cols:
  assumes gx: "gnx geom = Nx" and gy: "gny geom = Ny" and gz: "gnz geom = Nz"
    and f: "fits CInt Nx" "fits CInt Ny" "fits CInt Nz"
    and c: "0 \<le> gix" "gix < Nx" "0 \<le> giy" "giy < Ny" "0 \<le> giz" "giz < Nz"
  shows "length (stencil_cols G geom gix giy giz g) = length (ideal_cols Nx Ny Nz gix giy giz)"
proof -
  have ox: "filter (in_domain G gix Nx) [- 1, 0, 1] = offsets gix Nx"
    by (rule in_domain_offsets[OF c(1,2) fits_CInt[OF f(1)]])
  have oy: "filter (in_domain G giy Ny) [- 1, 0, 1] = offsets giy Ny"
    by (rule in_domain_offsets[OF c(3,4) fits_CInt[OF f(2)]])
  have oz: "filter (in_domain G giz Nz) [- 1, 0, 1] = offsets giz Nz"
    by (rule in_domain_offsets[OF c(5,6) fits_CInt[OF f(3)]])
  show ?thesis
    unfolding stencil_cols_def ideal_cols_def gx gy gz ox oy oz
    by (simp add: length_concat comp_def sum_list_triv)
qed

lemma length_stored_cols:
  assumes v: "valid_geometry geom" and s: "sizes_fit L G geom" and r: "r < num_rows geom"
  shows "length (stored_cols G geom r) = length (row_cols geom r)"
proof -
  note e = extents_fit[OF v s]
  have f: "fits CInt (global_nx geom)" "fits CInt (global_ny geom)" "fits CInt (global_nz geom)"
    using s by (simp_all add: sizes_fit_def)
  show ?thesis
    unfolding stored_cols_def row_cols_def
    by (rule length_stencil_cols[OF e(1,2,3) f row_global_bounds[OF v r]])
qed

lemma stored_cols_exact:
  assumes v: "valid_geometry geom" and o: "no_overflow L G geom" and r: "r < num_rows geom"
  shows "stored_cols G geom r = row_cols geom r"
proof -
  note e = extents[OF v o]
  have f: "fits CInt (global_nx geom)" "fits CInt (global_ny geom)" "fits CInt (global_nz geom)"
    "fits CInt (global_nx geom * global_ny geom)"
    "fits G (global_nx geom * global_ny geom * global_nz geom)"
    using o by (simp_all add: no_overflow_def)
  show ?thesis
    unfolding stored_cols_def row_global_def row_cols_def
    by (rule stencil_cols_ideal[OF e(1,2,3) f e(4,5) row_global_bounds[OF v r]])
qed

lemma generate_row_step:
  assumes v: "valid_geometry geom" and s: "sizes_fit L G geom"
    and c: "0 \<le> ix" "ix < nx geom" "0 \<le> iy" "iy < ny geom" "0 \<le> iz" "iz < nz geom"
    and k: "k = nat (lin (nx geom) (ny geom) iz iy ix)"
    and d: "rows_stored G geom k P"
  shows "\<exists>P'. generate_row L G geom iz iy ix P = Inr P' \<and> rows_stored G geom (Suc k) P'"
proof -
  have p: "0 < nx geom" "0 < ny geom" "0 < nz geom"
    and ip: "0 \<le> ipx geom" "ipx geom < npx geom" "0 \<le> ipy geom" "ipy geom < npy geom"
      "0 \<le> ipz geom" "ipz geom < npz geom"
    using v by (simp_all add: valid_geometry_def)
  have f: "fits CInt (nx geom * npx geom)" "fits CInt (ny geom * npy geom)" "fits CInt (nz geom * npz geom)"
    "fits G (global_nx geom * global_ny geom * global_nz geom)"
    "fits CInt (nx geom * ny geom * nz geom)"
    "fits L (local_nonzeros geom (num_rows geom))"
    using s by (simp_all add: sizes_fit_def global_nx_def global_ny_def global_nz_def)
  note e = extents_fit[OF v s]
  note lb = lin_bounds[OF c]
  have ki: "int k = lin (nx geom) (ny geom) iz iy ix"
    using k lb(1) by simp
  have kn: "k < num_rows geom"
    using lb(2) ki by (simp add: num_rows_def)
  note dec = decode_lin[OF c(1-5) k]
  have gc: "global_coord L G (ipx geom) (nx geom) ix = row_gix geom k"
    "global_coord L G (ipy geom) (ny geom) iy = row_giy geom k"
    "global_coord L G (ipz geom) (nz geom) iz = row_giz geom k"
    by (simp_all add: row_gix_def row_giy_def row_giz_def dec
        global_coord_exact(1)[OF c(1,2) ip(1,2) f(1)]
        global_coord_exact(1)[OF c(3,4) ip(3,4) f(2)]
        global_coord_exact(1)[OF c(5,6) ip(5,6) f(3)])
  have lr: "currentLocalRow L geom iz iy ix = int k"
    unfolding currentLocalRow_def ki by (rule lin_wrapped[OF c fits_CInt[OF f(5)]])
  have gr: "currentGlobalRow G geom (row_giz geom k) (row_giy geom k) (row_gix geom k) = row_global geom k"
    unfolding currentGlobalRow_def row_global_def e(1,2)
    by (rule lin_wrapped[OF row_global_bounds[OF v kn] f(4)])
  let ?cols = "stored_cols G geom k"
  let ?row = "fold (write_entry (row_global geom k)) ?cols empty_row"
  have st: "stencil_sz G geom (row_gix geom k) (row_giy geom k) (row_giz geom k) (row_global geom k) empty_row
      = ?row"
    by (simp only: stencil_sz_fold stored_cols_def)
  have rowf: "row_values ?row = map (\<lambda>c. if c = row_global geom k then 27 else - 1) ?cols"
    "row_indG ?row = ?cols" "numberOfNonzerosInRow ?row = int (length ?cols)"
    by (simp_all add: written_values written_indG written_count empty_row_def new_row_def)
  have al: "allocated geom P" and old: "\<And>r. r < k \<Longrightarrow> row_stored G geom P r"
    and null: "\<And>r. k \<le> r \<Longrightarrow> r < num_rows geom \<Longrightarrow> matrixDiagonal P ! r = None"
    and cnt: "localNumberOfNonzeros P = local_nonzeros geom k"
    using d by (simp_all add: rows_stored_def)
  have start: "new_row (matrixDiagonal P ! k) = empty_row"
    using null[of k] kn by (simp add: empty_row_def)
  have "local_nonzeros geom (Suc k) \<le> local_nonzeros geom (num_rows geom)"
    using kn by (intro local_nonzeros_mono) simp
  then have "fits L (local_nonzeros geom (Suc k))"
    by (rule fits_between[OF fits_small(2) f(6) local_nonzeros_nonneg])
  then have nnz: "c_add L (local_nonzeros geom k) (int (length ?cols)) = local_nonzeros geom (Suc k)"
    by (simp add: local_nonzeros_Suc c_add_fits length_stored_cols[OF v s kn])
  have inj: "row_global geom r \<noteq> row_global geom k" if "r < k" for r
    using row_global_distinct[OF v _ kn, of r] that kn by auto
  define P' where "P' = P\<lparr>globalToLocalMap := (globalToLocalMap P)(row_global geom k \<mapsto> int k),
                      localToGlobalMap := (localToGlobalMap P)[k := row_global geom k],
                      matrixValues := (matrixValues P)[k := row_values ?row],
                      mtxIndG := (mtxIndG P)[k := row_indG ?row],
                      matrixDiagonal := (matrixDiagonal P)[k := row_diagonal ?row],
                      nonzerosInRow := (nonzerosInRow P)[k := Some (numberOfNonzerosInRow ?row)],
                      localNumberOfNonzeros :=
                        c_add L (localNumberOfNonzeros P) (numberOfNonzerosInRow ?row),
                      x_vec := (x_vec P)[k := Some 0],
                      b_vec := (b_vec P)[k := Some (27 - real_of_int (numberOfNonzerosInRow ?row - 1))],
                      xexact_vec := (xexact_vec P)[k := Some 1]\<rparr>"
  have len: "int k < int (length (nonzerosInRow P))"
    using al kn by (simp add: allocated_def)
  have run: "generate_row L G geom iz iy ix P = Inr P'"
    using len by (simp add: generate_row_def gc lr gr start st Let_def P'_def)
  have al': "allocated geom P'"
    using al by (simp add: allocated_def P'_def)
  have new: "row_stored G geom P' k"
    using al kn by (simp add: row_stored_def P'_def allocated_def rowf)
  have old': "row_stored G geom P' r" if "r < k" for r
    using old[OF that] inj[OF that] that by (simp add: row_stored_def P'_def)
  have "\<forall>r<Suc k. row_stored G geom P' r"
    using new old' by (auto simp: less_Suc_eq)
  moreover have "localNumberOfNonzeros P' = local_nonzeros geom (Suc k)"
    by (simp add: P'_def cnt rowf nnz)
  moreover have "matrixDiagonal P' ! r = None" if "Suc k \<le> r" "r < num_rows geom" for r
    using null[of r] that by (simp add: P'_def)
  ultimately have "rows_stored G geom (Suc k) P'"
    using al' by (simp add: rows_stored_def)
  with run show ?thesis by blast
qed

subsection \<open>The loops over the grid\<close>

lemma for_loop_invariant:
  assumes "I i s" and "i \<le> n"
    and "\<And>j s. i \<le> j \<Longrightarrow> j < n \<Longrightarrow> I j s \<Longrightarrow> \<exists>s'. body j s = Inr s' \<and> I (j + 1) s'"
  shows "\<exists>s'. for_loop i n body s = Inr s' \<and> I n s'"
  using assms
proof (induction i n body s rule: for_loop.induct)
  case (1 i n body s)
  show ?case
  proof (cases "i < n")
    case True
    then obtain s' where s': "body i s = Inr s'" "I (i + 1) s'"
      using "1.prems"(1) "1.prems"(3)[of i s] by auto
    have "\<exists>s''. for_loop (i + 1) n body s' = Inr s'' \<and> I n s''"
    proof (rule "1.IH"[OF True s'(1) s'(2)])
      show "i + 1 \<le> n" using True by simp
    next
      fix j t
      assume "i + 1 \<le> j" "j < n" "I j t"
      then show "\<exists>s'. body j t = Inr s' \<and> I (j + 1) s'"
        using "1.prems"(3)[of j t] by simp
    qed
    then show ?thesis
      using True s'(1) by (subst for_loop.simps) simp
  next
    case False
    with "1.prems"(1,2) have "i = n" by simp
    with "1.prems"(1) show ?thesis
      by (subst for_loop.simps) simp
  qed
qed

lemma lin_carry:
  "lin n1 n2 k j n1 = lin n1 n2 k (j + 1) 0"
  "lin n1 n2 k n2 0 = lin n1 n2 (k + 1) 0 0"
  "lin n1 n2 0 0 0 = 0"
  "lin n1 n2 k j (i + 1) = lin n1 n2 k j i + 1"
  by (simp_all add: lin_def algebra_simps)

lemma ix_loop:
  assumes v: "valid_geometry geom" and o: "sizes_fit L G geom"
    and c: "0 \<le> iy" "iy < ny geom" "0 \<le> iz" "iz < nz geom"
    and d: "rows_stored G geom (nat (lin (nx geom) (ny geom) iz iy 0)) P"
  shows "\<exists>P'. for_loop 0 (nx geom) (\<lambda>ix. generate_row L G geom iz iy ix) P = Inr P'
           \<and> rows_stored G geom (nat (lin (nx geom) (ny geom) iz (iy + 1) 0)) P'"
proof -
  have p: "0 < nx geom" using v by (simp add: valid_geometry_def)
  let ?I = "\<lambda>ix P. rows_stored G geom (nat (lin (nx geom) (ny geom) iz iy ix)) P"
  have "\<exists>P'. for_loop 0 (nx geom) (\<lambda>ix. generate_row L G geom iz iy ix) P = Inr P' \<and> ?I (nx geom) P'"
  proof (rule for_loop_invariant[where I = ?I])
    show "?I 0 P" by (rule d)
    show "0 \<le> nx geom" using p by simp
  next
    fix j Q
    assume j: "0 \<le> j" "j < nx geom" and Q: "?I j Q"
    note step = generate_row_step[OF v o j c refl Q]
    have "0 \<le> lin (nx geom) (ny geom) iz iy j"
      by (rule lin_bounds(1)[OF j c])
    then have "Suc (nat (lin (nx geom) (ny geom) iz iy j)) = nat (lin (nx geom) (ny geom) iz iy (j + 1))"
      by (simp add: lin_carry(4))
    with step show "\<exists>s'. generate_row L G geom iz iy j Q = Inr s' \<and> ?I (j + 1) s'"
      by simp
  qed
  then show ?thesis
    by (simp only: lin_carry(1))
qed

lemma iy_loop:
  assumes v: "valid_geometry geom" and o: "sizes_fit L G geom"
    and c: "0 \<le> iz" "iz < nz geom"
    and d: "rows_stored G geom (nat (lin (nx geom) (ny geom) iz 0 0)) P"
  shows "\<exists>P'. for_loop 0 (ny geom) (\<lambda>iy. for_loop 0 (nx geom) (\<lambda>ix. generate_row L G geom iz iy ix)) P = Inr P'
           \<and> rows_stored G geom (nat (lin (nx geom) (ny geom) (iz + 1) 0 0)) P'"
proof -
  have p: "0 < ny geom" using v by (simp add: valid_geometry_def)
  let ?I = "\<lambda>iy P. rows_stored G geom (nat (lin (nx geom) (ny geom) iz iy 0)) P"
  have "\<exists>P'. for_loop 0 (ny geom) (\<lambda>iy. for_loop 0 (nx geom) (\<lambda>ix. generate_row L G geom iz iy ix)) P = Inr P'
          \<and> ?I (ny geom) P'"
  proof (rule for_loop_invariant[where I = ?I])
    show "?I 0 P" by (rule d)
    show "0 \<le> ny geom" using p by simp
  next
    fix j Q
    assume j: "0 \<le> j" "j < ny geom" and Q: "?I j Q"
    show "\<exists>s'. for_loop 0 (nx geom) (\<lambda>ix. generate_row L G geom iz j ix) Q = Inr s' \<and> ?I (j + 1) s'"
      by (rule ix_loop[OF v o j c Q])
  qed
  then show ?thesis
    by (simp only: lin_carry(2))
qed

lemma generate_rows_done:
  assumes v: "valid_geometry geom" and o: "sizes_fit L G geom"
    and d: "rows_stored G geom 0 P"
  shows "\<exists>P'. generate_rows L G geom P = Inr P' \<and> rows_stored G geom (num_rows geom) P'"
proof -
  have p: "0 < nz geom" using v by (simp add: valid_geometry_def)
  let ?I = "\<lambda>iz P. rows_stored G geom (nat (lin (nx geom) (ny geom) iz 0 0)) P"
  have "\<exists>P'. generate_rows L G geom P = Inr P' \<and> ?I (nz geom) P'"
    unfolding generate_rows_def
  proof (rule for_loop_invariant[where I = ?I])
    show "?I 0 P" using d by (simp add: lin_carry(3))
    show "0 \<le> nz geom" using p by simp
  next
    fix j Q
    assume j: "0 \<le> j" "j < nz geom" and Q: "?I j Q"
    show "\<exists>s'. for_loop 0 (ny geom) (\<lambda>iy. for_loop 0 (nx geom) (\<lambda>ix. generate_row L G geom j iy ix)) Q = Inr s'
            \<and> ?I (j + 1) s'"
      by (rule iy_loop[OF v o j Q])
  qed
  moreover have "nat (lin (nx geom) (ny geom) (nz geom) 0 0) = num_rows geom"
    by (simp add: lin_def num_rows_def mult.commute mult.left_commute)
  ultimately show ?thesis by simp
qed

lemma rows_stored_allocate: "rows_stored G geom 0 (allocate (num_rows geom) A)"
  by (simp add: rows_stored_def allocated_def allocate_def local_nonzeros_def)

lemma local_rows_exact:
  assumes v: "valid_geometry geom" and s: "sizes_fit L G geom"
  shows "numberOfLocalRows L geom = nx geom * ny geom * nz geom"
    and "0 < nx geom * ny geom * nz geom"
proof -
  have p: "0 < nx geom" "0 < ny geom" "0 < nz geom"
    using v by (simp_all add: valid_geometry_def)
  have f: "fits CInt (nx geom * ny geom * nz geom)"
    using s by (simp add: sizes_fit_def)
  have xy: "0 \<le> nx geom * ny geom" using p by simp
  have "nx geom * ny geom \<le> nx geom * ny geom * nz geom"
    using p(3) by (intro le_mult_pos[OF xy]) simp
  then have "fits CInt (nx geom * ny geom)"
    by (rule fits_between[OF fits_small(2) f xy])
  then have 1: "c_mul CInt (nx geom) (ny geom) = nx geom * ny geom"
    by (rule c_mul_fits)
  have 2: "c_mul CInt (nx geom * ny geom) (nz geom) = nx geom * ny geom * nz geom"
    by (rule c_mul_fits[OF f])
  show "numberOfLocalRows L geom = nx geom * ny geom * nz geom"
    by (simp only: numberOfLocalRows_def 1 2 wrap_fits[OF fits_CInt[OF f]])
  show "0 < nx geom * ny geom * nz geom"
    using p by simp
qed

lemma local_counts:
  assumes v: "valid_geometry geom" and o: "no_overflow L G geom"
  shows "numberOfLocalRows L geom = nx geom * ny geom * nz geom"
    and "numberOfTotalRows L G geom = nx geom * ny geom * nz geom * size_g geom"
    and "0 < nx geom * ny geom * nz geom"
    and "0 < nx geom * ny geom * nz geom * size_g geom"
proof -
  have p: "0 < nx geom" "0 < ny geom" "0 < nz geom" "0 < size_g geom"
    using v by (simp_all add: valid_geometry_def)
  have f: "fits L (nx geom * ny geom * nz geom * size_g geom)"
    "fits G (nx geom * ny geom * nz geom * size_g geom)"
    using o by (simp_all add: no_overflow_def)
  show l: "numberOfLocalRows L geom = nx geom * ny geom * nz geom"
    by (rule local_rows_exact(1)[OF v no_overflow_sizes_fit[OF o]])
  show "numberOfTotalRows L G geom = nx geom * ny geom * nz geom * size_g geom"
    by (simp only: numberOfTotalRows_def l c_mul_fits[OF f(1)] wrap_fits[OF f(2)])
  show "0 < nx geom * ny geom * nz geom" "0 < nx geom * ny geom * nz geom * size_g geom"
    using p by simp_all
qed

lemma row_cols_nonempty:
  assumes "valid_geometry geom" "r < num_rows geom"
  shows "row_global geom r \<in> set (row_cols geom r)"
  unfolding row_global_def row_cols_def
  by (rule own_row_in_ideal_cols[OF row_global_bounds[OF assms]])

lemma local_nonzeros_pos:
  assumes v: "valid_geometry geom"
  shows "0 < local_nonzeros geom (num_rows geom)"
proof -
  have "0 < nx geom * ny geom * nz geom"
    using v by (simp add: valid_geometry_def)
  then have n: "0 < num_rows geom"
    by (simp add: num_rows_def)
  then have "row_cols geom 0 \<noteq> []"
    using row_cols_nonempty[OF v, of 0] by auto
  then have "0 < local_nonzeros geom (Suc 0)"
    by (simp add: local_nonzeros_def)
  also have "\<dots> \<le> local_nonzeros geom (num_rows geom)"
    using n by (intro local_nonzeros_mono) simp
  finally show ?thesis .
qed

lemma GenerateProblem_stored:
  assumes v: "valid_geometry geom" and s: "sizes_fit L G geom"
    and t: "0 < numberOfTotalRows L G geom"
    and z: "0 < wrap G (MPI_Allreduce_SUM (local_nonzeros geom (num_rows geom)) others)"
  shows "\<exists>P. GenerateProblem L G others geom A = Inr P
           \<and> rows_stored G geom (num_rows geom) P
           \<and> localNumberOfRows P = nx geom * ny geom * nz geom
           \<and> localNumberOfColumns P = nx geom * ny geom * nz geom
           \<and> totalNumberOfRows P = numberOfTotalRows L G geom
           \<and> totalNumberOfNonzeros P
               = wrap G (MPI_Allreduce_SUM (local_nonzeros geom (num_rows geom)) others)"
proof -
  note lc = local_rows_exact[OF v s]
  obtain Q where Q: "generate_rows L G geom (allocate (num_rows geom) A) = Inr Q"
    "rows_stored G geom (num_rows geom) Q"
    using generate_rows_done[OF v s rows_stored_allocate] by blast
  let ?t = "wrap G (MPI_Allreduce_SUM (local_nonzeros geom (num_rows geom)) others)"
  have cnt: "localNumberOfNonzeros Q = local_nonzeros geom (num_rows geom)"
    using Q(2) by (simp add: rows_stored_def)
  let ?P = "Q\<lparr>title := None,
              totalNumberOfRows := numberOfTotalRows L G geom,
              totalNumberOfNonzeros := ?t,
              localNumberOfRows := numberOfLocalRows L geom,
              localNumberOfColumns := numberOfLocalRows L geom\<rparr>"
  have run: "GenerateProblem L G others geom A = Inr ?P"
    using lc(2) t z by (simp add: GenerateProblem_def num_rows_def[symmetric] Q(1) cnt Let_def lc(1))
  have "rows_stored G geom (num_rows geom) ?P = rows_stored G geom (num_rows geom) Q"
    by (simp add: rows_stored_def allocated_def row_stored_def)
  then have "rows_stored G geom (num_rows geom) ?P"
    using Q(2) by simp
  with run show ?thesis
    by (simp add: lc(1))
qed

lemma rows_stored_done:
  assumes v: "valid_geometry geom" and o: "no_overflow L G geom"
    and k: "k \<le> num_rows geom" and d: "rows_stored G geom k P"
  shows "rows_done geom k P"
proof -
  have "row_ok geom P r" if "r < k" for r
  proof -
    have "r < num_rows geom" using that k by simp
    then have "stored_cols G geom r = row_cols geom r"
      by (rule stored_cols_exact[OF v o])
    moreover have "row_stored G geom P r"
      using d that by (simp add: rows_stored_def)
    ultimately show ?thesis
      by (simp add: row_stored_def row_ok_def)
  qed
  with d show ?thesis
    by (simp add: rows_stored_def rows_done_def)
qed

lemma GenerateProblem_succeeds:
  assumes v: "valid_geometry geom" and o: "no_overflow L G geom" and f: "counts_fit G geom others"
  shows "\<exists>P. GenerateProblem L G others geom A = Inr P
           \<and> rows_done geom (num_rows geom) P
           \<and> localNumberOfRows P = nx geom * ny geom * nz geom
           \<and> localNumberOfColumns P = nx geom * ny geom * nz geom
           \<and> totalNumberOfRows P = nx geom * ny geom * nz geom * size_g geom
           \<and> totalNumberOfNonzeros P = local_nonzeros geom (num_rows geom) + sum_list others"
proof -
  note lc = local_counts[OF v o]
  let ?t = "local_nonzeros geom (num_rows geom) + sum_list others"
  have "0 \<le> sum_list others"
    using f by (intro sum_list_nonneg) (simp add: counts_fit_def)
  then have pos: "0 < ?t"
    using local_nonzeros_pos[OF v] by simp
  have ft: "fits CLongLong ?t" "fits G ?t"
    using f by (simp_all add: counts_fit_def)
  have t: "wrap G (MPI_Allreduce_SUM (local_nonzeros geom (num_rows geom)) others) = ?t"
    by (simp add: MPI_Allreduce_SUM_def wrap_fits[OF ft(1)] wrap_fits[OF ft(2)])
  have "0 < numberOfTotalRows L G geom"
    using lc(4) by (simp only: lc(2))
  from GenerateProblem_stored[OF v no_overflow_sizes_fit[OF o] this, of others A]
  obtain P where P: "GenerateProblem L G others geom A = Inr P"
    "rows_stored G geom (num_rows geom) P"
    "localNumberOfRows P = nx geom * ny geom * nz geom"
    "localNumberOfColumns P = nx geom * ny geom * nz geom"
    "totalNumberOfRows P = numberOfTotalRows L G geom"
    "totalNumberOfNonzeros P = ?t"
    using pos unfolding t by blast
  have "rows_done geom (num_rows geom) P"
    by (rule rows_stored_done[OF v o order_refl P(2)])
  with P show ?thesis
    by (simp add: lc(2))
qed

subsection \<open>The builds of the sum reduction\<close>

text \<open>
  The model sums in \<^verbatim>\<open>long long\<close> and converts to \<^verbatim>\<open>global_int_t\<close>.  The build without MPI
  assigns the local count: that is the sum with no other process.  The build with
  \<^verbatim>\<open>HPCG_NO_LONG_LONG\<close> sums in \<^verbatim>\<open>int\<close> and has \<^verbatim>\<open>int\<close> index types: reducing to 32 bits
  after reducing to 64 bits is reducing to 32 bits.
\<close>

lemma mod_shift:
  fixes v a b m n :: int
  assumes "m dvd n"
  shows "((v + a) mod n - a + b) mod m = (v + b) mod m"
proof -
  have "((v + a) mod n - a + b) mod m = ((v + a) mod n + (b - a)) mod m"
    by (simp add: algebra_simps)
  also have "\<dots> = ((v + a) mod n mod m + (b - a)) mod m"
    by (simp only: mod_add_left_eq)
  also have "\<dots> = ((v + a) mod m + (b - a)) mod m"
    by (simp only: mod_mod_cancel[OF assms])
  also have "\<dots> = ((v + a) + (b - a)) mod m"
    by (simp only: mod_add_left_eq)
  also have "\<dots> = (v + b) mod m"
    by (simp add: algebra_simps)
  finally show ?thesis .
qed

lemma wrap_CInt_CLongLong: "wrap CInt (wrap CLongLong v) = wrap CInt v"
  using mod_shift[of "2 ^ 32" "2 ^ 64" v "2 ^ 63" "2 ^ 31"] by (simp add: wrap_def)

lemma MPI_Allreduce_SUM_single_process:
  "fits L v \<Longrightarrow> wrap G (MPI_Allreduce_SUM v []) = wrap G v"
proof -
  assume "fits L v"
  then have "fits CLongLong v"
    by (cases L) (auto simp: fits_def)
  then show ?thesis
    by (simp add: MPI_Allreduce_SUM_def wrap_fits)
qed

lemma MPI_Allreduce_SUM_int:
  "wrap CInt (MPI_Allreduce_SUM v others) = wrap CInt (v + sum_list others)"
  by (simp add: MPI_Allreduce_SUM_def wrap_CInt_CLongLong)

section \<open>Properties of GenerateProblem\<close>

subsection \<open>Rows, counts and the unique corner\<close>

lemma GenerateProblem_rows:
  assumes "valid_geometry geom" and "no_overflow L G geom" and "counts_fit G geom others"
  obtains P where "GenerateProblem L G others geom A = Inr P"
    and "allocated geom P"
    and "\<And>r. r < num_rows geom \<Longrightarrow> row_ok geom P r"
    and "localNumberOfRows P = int (num_rows geom)"
proof -
  obtain P where P: "GenerateProblem L G others geom A = Inr P" "rows_done geom (num_rows geom) P"
    "localNumberOfRows P = nx geom * ny geom * nz geom"
    using GenerateProblem_succeeds[OF assms] by blast
  have "0 < nx geom * ny geom * nz geom"
    by (rule local_counts(3)[OF assms(1,2)])
  then have "localNumberOfRows P = int (num_rows geom)"
    using P(3) by (simp add: num_rows_def)
  with P(1,2) that show ?thesis
    by (simp add: rows_done_def)
qed

lemma length_offsets_bounds:
  assumes "0 \<le> g" "g < n"
  shows "1 \<le> length (offsets g n)" "length (offsets g n) \<le> 3"
    and "2 \<le> n \<Longrightarrow> 2 \<le> length (offsets g n)"
    and "0 < g \<Longrightarrow> g + 1 < n \<Longrightarrow> length (offsets g n) = 3"
    and "2 \<le> n \<Longrightarrow> length (offsets g n) = 2 \<longleftrightarrow> g = 0 \<or> g + 1 = n"
  using assms by (auto simp: length_offsets)

lemma length_row_cols:
  "length (row_cols geom r) =
     length (offsets (row_giz geom r) (global_nz geom)) *
       (length (offsets (row_giy geom r) (global_ny geom)) *
        length (offsets (row_gix geom r) (global_nx geom)))"
  by (simp add: row_cols_def length_ideal_cols)

lemma product_bounds:
  fixes a b c :: nat
  assumes "1 \<le> a" "a \<le> 3" "1 \<le> b" "b \<le> 3" "1 \<le> c" "c \<le> 3"
  shows "1 \<le> a * (b * c)" and "a * (b * c) \<le> 27"
    and "2 \<le> a \<Longrightarrow> 2 \<le> b \<Longrightarrow> 2 \<le> c \<Longrightarrow> 8 \<le> a * (b * c)"
    and "2 \<le> a \<Longrightarrow> 2 \<le> b \<Longrightarrow> 2 \<le> c \<Longrightarrow> a * (b * c) = 8 \<longleftrightarrow> a = 2 \<and> b = 2 \<and> c = 2"
proof -
  have a: "a = 1 \<or> a = 2 \<or> a = 3" and b: "b = 1 \<or> b = 2 \<or> b = 3" and c: "c = 1 \<or> c = 2 \<or> c = 3"
    using assms by auto
  show "1 \<le> a * (b * c)" using a b c by auto
  show "a * (b * c) \<le> 27" using a b c by auto
  show "2 \<le> a \<Longrightarrow> 2 \<le> b \<Longrightarrow> 2 \<le> c \<Longrightarrow> 8 \<le> a * (b * c)" using a b c by auto
  show "2 \<le> a \<Longrightarrow> 2 \<le> b \<Longrightarrow> 2 \<le> c \<Longrightarrow> a * (b * c) = 8 \<longleftrightarrow> a = 2 \<and> b = 2 \<and> c = 2"
    using a b c by auto
qed


lemma sorted_row_cols: "sorted_wrt (<) (row_cols geom r)"
  unfolding row_cols_def by (rule sorted_ideal_cols)

lemma distinct_row_cols: "distinct (row_cols geom r)"
  using sorted_row_cols[of geom r] strict_sorted_iff by blast

lemma row_diagonal_slot:
  assumes v: "valid_geometry geom" and o: "no_overflow L G geom" and r: "r < num_rows geom"
  shows "\<exists>k. row_diagonal (fold (write_entry (row_global geom r)) (row_cols geom r) empty_row) = Some k
           \<and> k < length (row_cols geom r) \<and> row_cols geom r ! k = row_global geom r"
proof -
  obtain k where k: "row_diagonal (fold (write_entry (row_global geom r)) (row_cols geom r) empty_row) = Some k"
    using written_diagonal_set[OF row_cols_nonempty[OF v r]] by blast
  with written_diagonal_points[OF k] show ?thesis
    by blast
qed

lemma unique_index:
  assumes "distinct xs" "k < length xs" "xs ! k = a"
  shows "\<exists>!j. j < length xs \<and> xs ! j = a"
  using assms by (auto simp: nth_eq_iff_index_eq)






subsection \<open>Concrete geometries\<close>

text \<open>
  The geometries used to exercise the theorems: a process in the middle of a 2 x 2 x 2
  process grid, the process at the origin of a 3 x 3 x 3 process grid, and three
  geometries on which an assertion fails.
\<close>

lemma box_2_2_1:
  "valid_geometry (box_geometry 2 2 1)"
  "no_overflow CInt CLongLong (box_geometry 2 2 1)"
  "counts_fit CLongLong (box_geometry 2 2 1) [125, 125, 125, 125, 125, 125, 125]"
  by code_simp+


lemma asserts_examples:
  "numberOfLocalRows CInt (box_geometry 2048 1 0) \<le> 0"
  "0 < numberOfLocalRows CInt ((box_geometry 1 1 0)\<lparr>size_g := 0\<rparr>) \<and>
     numberOfTotalRows CInt CInt ((box_geometry 1 1 0)\<lparr>size_g := 0\<rparr>) \<le> 0"
  "0 < numberOfLocalRows CInt ((box_geometry 1 1 0)\<lparr>nx := - 1, ny := - 1\<rparr>) \<and>
     0 < numberOfTotalRows CInt CInt ((box_geometry 1 1 0)\<lparr>nx := - 1, ny := - 1\<rparr>)"
  by code_simp+

lemma no_rows_example:
  "generate_rows CInt CInt ((box_geometry 1 1 0)\<lparr>nx := - 1, ny := - 1\<rparr>)
     (allocate (nat (numberOfLocalRows CInt ((box_geometry 1 1 0)\<lparr>nx := - 1, ny := - 1\<rparr>))) empty_matrix)
   = Inr (allocate 1 empty_matrix)"
  by (simp add: generate_rows_def for_loop.simps box_geometry_def numberOfLocalRows_def c_mul_def wrap_def)

lemma no_rows_count:
  "wrap CInt (MPI_Allreduce_SUM (localNumberOfNonzeros (allocate 1 empty_matrix)) []) \<le> 0"
  by (simp add: allocate_def MPI_Allreduce_SUM_def wrap_def)

text \<open>
  A row has at most 27 nonzeros, so the local count is at most 27 times the number of
  rows.  Any row of a run is obtained from sizes that can be checked by evaluation.
\<close>

lemma local_nonzeros_le:
  assumes v: "valid_geometry geom" and k: "k \<le> num_rows geom"
  shows "local_nonzeros geom k \<le> 27 * int k"
  using k
proof (induction k)
  case 0
  then show ?case by (simp add: local_nonzeros_def)
next
  case (Suc k)
  then have r: "k < num_rows geom" by simp
  note g = row_global_bounds[OF v r]
  note x = length_offsets_bounds[OF g(1,2)] and y = length_offsets_bounds[OF g(3,4)]
    and z = length_offsets_bounds[OF g(5,6)]
  have "length (row_cols geom k) \<le> 27"
    unfolding length_row_cols by (rule product_bounds[OF z(1,2) y(1,2) x(1,2)])
  with Suc show ?case
    by (simp add: local_nonzeros_Suc)
qed

lemma GenerateProblem_stores:
  assumes v: "valid_geometry geom"
    and f: "fits CInt (global_nx geom)" "fits CInt (global_ny geom)" "fits CInt (global_nz geom)"
      "fits G (global_nx geom * global_ny geom * global_nz geom)"
      "fits CInt (nx geom * ny geom * nz geom)"
    and n: "fits L (27 * (nx geom * ny geom * nz geom))"
    and t: "0 < numberOfTotalRows L G geom"
    and c: "0 \<le> sum_list others"
      "fits CLongLong (27 * (nx geom * ny geom * nz geom) + sum_list others)"
      "fits G (27 * (nx geom * ny geom * nz geom) + sum_list others)"
    and r: "r < num_rows geom"
  shows "\<exists>P. GenerateProblem L G others geom A = Inr P \<and> row_stored G geom P r"
proof -
  let ?n = "local_nonzeros geom (num_rows geom)"
  have rows: "int (num_rows geom) = nx geom * ny geom * nz geom"
    using v by (simp add: num_rows_def valid_geometry_def)
  have pos: "0 < ?n"
    by (rule local_nonzeros_pos[OF v])
  have le: "?n \<le> 27 * (nx geom * ny geom * nz geom)"
    using local_nonzeros_le[OF v order_refl] by (simp only: rows)
  have "fits L ?n"
    by (rule fits_between[OF fits_small(2) n]) (use pos le in simp_all)
  with f have s: "sizes_fit L G geom"
    by (simp add: sizes_fit_def)
  have b: "0 \<le> ?n + sum_list others"
    "?n + sum_list others \<le> 27 * (nx geom * ny geom * nz geom) + sum_list others"
    using pos le c(1) by simp_all
  have "fits CLongLong (?n + sum_list others)"
    by (rule fits_between[OF fits_small(2) c(2) b])
  moreover have "fits G (?n + sum_list others)"
    by (rule fits_between[OF fits_small(2) c(3) b])
  ultimately have "wrap G (MPI_Allreduce_SUM ?n others) = ?n + sum_list others"
    by (simp add: MPI_Allreduce_SUM_def wrap_fits)
  then have z: "0 < wrap G (MPI_Allreduce_SUM ?n others)"
    using pos c(1) by simp
  from GenerateProblem_stored[OF v s t z, of A]
  obtain P where "GenerateProblem L G others geom A = Inr P" "rows_stored G geom (num_rows geom) P"
    by blast
  then show ?thesis
    using r by (auto simp: rows_stored_def)
qed

text \<open>
  Two geometries on which \<^verbatim>\<open>gnx*gny\<close> does not fit an \<^verbatim>\<open>int\<close>, with the index types of the
  source (\<^verbatim>\<open>local_int_t\<close> is \<^verbatim>\<open>int\<close>, \<^verbatim>\<open>global_int_t\<close> is \<^verbatim>\<open>long long\<close>): 256 x 65537 x 2
  local points on each of 256 x 1 x 1 processes, and 256 x 256 x 2 local points on each of
  192 x 192 x 1 processes.  The other processes contribute the nonzero counts of their
  positions.  The routine passes its three assertions and returns; one row of each run is
  given with the columns that the stencil loops store in it.
\<close>

lemmas int_eval = wrap_def c_mul_def c_add_def fits_def

lemma row_256_stored:
  "\<exists>P. GenerateProblem CInt CLongLong (replicate 254 603982848 @ [603196412])
          (grid_geometry 256 65537 2 256 1 1) A = Inr P
      \<and> row_stored CLongLong (grid_geometry 256 65537 2 256 1 1) P 256"
  by (rule GenerateProblem_stores)
    (simp_all add: grid_geometry_def valid_geometry_def global_nx_def global_ny_def global_nz_def
      num_rows_def numberOfTotalRows_def numberOfLocalRows_def int_eval sum_list_replicate)

lemma row_256_columns:
  "row_global (grid_geometry 256 65537 2 256 1 1) 256 = 65536"
  "stored_cols CLongLong (grid_geometry 256 65537 2 256 1 1) 256
     = [0, 1, 65536, 65537, 131072, 131073, 65536, 65537, 131072, 131073, 196608, 196609]"
  by (simp_all add: stored_cols_def stencil_cols_def in_domain_def curcol_def row_global_def lin_def
      row_gix_def row_giy_def row_giz_def row_ix_def row_iy_def row_iz_def gnx_def gny_def gnz_def
      global_nx_def global_ny_def global_nz_def grid_geometry_def int_eval)

lemma row_257_stored:
  "\<exists>P. GenerateProblem CInt CLongLong
          (replicate 3 2353156 @ replicate 760 2356224 @ replicate 36100 2359296)
          (grid_geometry 256 256 2 192 192 1) A = Inr P
      \<and> row_stored CLongLong (grid_geometry 256 256 2 192 192 1) P 257"
  by (rule GenerateProblem_stores)
    (simp_all add: grid_geometry_def valid_geometry_def global_nx_def global_ny_def global_nz_def
      num_rows_def numberOfTotalRows_def numberOfLocalRows_def int_eval sum_list_replicate)

lemma row_257_columns:
  "stored_cols CLongLong (grid_geometry 256 256 2 192 192 1) 257
     = [0, 1, 2, 49152, 49153, 49154, 98304, 98305, 98306,
        - 1879048192, - 1879048191, - 1879048190, - 1878999040, - 1878999039, - 1878999038,
        - 1878949888, - 1878949887, - 1878949886]"
  by (simp add: stored_cols_def stencil_cols_def in_domain_def curcol_def row_global_def lin_def
      row_gix_def row_giy_def row_giz_def row_ix_def row_iy_def row_iz_def gnx_def gny_def gnz_def
      global_nx_def global_ny_def global_nz_def grid_geometry_def int_eval)

subsection \<open>The specified properties\<close>

text \<open>
  Where no integer computation overflows, the product \<^verbatim>\<open>gnx*gny\<close> of the stencil offsets
  included: in every generated local row, the stored entry whose global column index is
  the row's own global row index has the value 27, every other stored entry has the value
  -1, exactly one entry of the row has the row's own global index as its column, and
  \<^verbatim>\<open>matrixDiagonal[row]\<close> points to the slot of that entry.
\<close>

theorem diagonal_and_off_diagonal_entries:
  assumes "valid_geometry geom" and "no_overflow L G geom" and "counts_fit G geom others"
  shows "\<exists>P. GenerateProblem L G others geom A = Inr P \<and>
           length (mtxIndG P) = num_rows geom \<and> length (matrixValues P) = num_rows geom \<and>
           length (matrixDiagonal P) = num_rows geom \<and> length (localToGlobalMap P) = num_rows geom \<and>
           (\<forall>r<num_rows geom.
              localToGlobalMap P ! r = row_global geom r \<and>
              length (matrixValues P ! r) = length (mtxIndG P ! r) \<and>
              (\<forall>k<length (mtxIndG P ! r).
                 matrixValues P ! r ! k = (if mtxIndG P ! r ! k = localToGlobalMap P ! r then 27 else - 1)) \<and>
              (\<exists>!k. k < length (mtxIndG P ! r) \<and> mtxIndG P ! r ! k = localToGlobalMap P ! r) \<and>
              (\<exists>k. matrixDiagonal P ! r = Some k \<and> k < length (mtxIndG P ! r) \<and>
                   mtxIndG P ! r ! k = localToGlobalMap P ! r \<and> matrixValues P ! r ! k = 27))"
proof -
  obtain P where P: "GenerateProblem L G others geom A = Inr P" "allocated geom P"
    and rows: "\<And>r. r < num_rows geom \<Longrightarrow> row_ok geom P r"
    using GenerateProblem_rows[OF assms] by blast
  have "localToGlobalMap P ! r = row_global geom r \<and>
        length (matrixValues P ! r) = length (mtxIndG P ! r) \<and>
        (\<forall>k<length (mtxIndG P ! r).
           matrixValues P ! r ! k = (if mtxIndG P ! r ! k = localToGlobalMap P ! r then 27 else - 1)) \<and>
        (\<exists>!k. k < length (mtxIndG P ! r) \<and> mtxIndG P ! r ! k = localToGlobalMap P ! r) \<and>
        (\<exists>k. matrixDiagonal P ! r = Some k \<and> k < length (mtxIndG P ! r) \<and>
             mtxIndG P ! r ! k = localToGlobalMap P ! r \<and> matrixValues P ! r ! k = 27)"
    if r: "r < num_rows geom" for r
  proof -
    have ok: "localToGlobalMap P ! r = row_global geom r" "mtxIndG P ! r = row_cols geom r"
      "matrixValues P ! r = map (\<lambda>c. if c = row_global geom r then 27 else - 1) (row_cols geom r)"
      "matrixDiagonal P ! r = row_diagonal (fold (write_entry (row_global geom r)) (row_cols geom r) empty_row)"
      using rows[OF r] by (simp_all add: row_ok_def)
    obtain k where k: "matrixDiagonal P ! r = Some k" "k < length (row_cols geom r)"
      "row_cols geom r ! k = row_global geom r"
      using row_diagonal_slot[OF assms(1,2) r] ok(4) by auto
    have "\<exists>!j. j < length (row_cols geom r) \<and> row_cols geom r ! j = row_global geom r"
      by (rule unique_index[OF distinct_row_cols k(2,3)])
    with k show ?thesis
      by (simp add: ok(1,2,3))
  qed
  moreover have "length (localToGlobalMap P) = num_rows geom" "length (mtxIndG P) = num_rows geom"
    "length (matrixValues P) = num_rows geom" "length (matrixDiagonal P) = num_rows geom"
    "length (nonzerosInRow P) = num_rows geom" "length (x_vec P) = num_rows geom"
    "length (b_vec P) = num_rows geom" "length (xexact_vec P) = num_rows geom"
    using P(2) by (simp_all add: allocated_def)
  ultimately show ?thesis
    using P(1) by blast
qed

theorem diagonal_and_off_diagonal_entries_witness:
  "valid_geometry (box_geometry 2 2 1) \<and> no_overflow CInt CLongLong (box_geometry 2 2 1) \<and>
   counts_fit CLongLong (box_geometry 2 2 1) [125, 125, 125, 125, 125, 125, 125] \<and>
   (\<exists>P. GenerateProblem CInt CLongLong [125, 125, 125, 125, 125, 125, 125] (box_geometry 2 2 1) empty_matrix = Inr P \<and>
      length (mtxIndG P) = num_rows (box_geometry 2 2 1) \<and>
      (\<forall>r<num_rows (box_geometry 2 2 1).
         \<exists>k. matrixDiagonal P ! r = Some k \<and> k < length (mtxIndG P ! r) \<and>
             mtxIndG P ! r ! k = localToGlobalMap P ! r \<and> matrixValues P ! r ! k = 27))"
  using box_2_2_1 diagonal_and_off_diagonal_entries [OF box_2_2_1, of empty_matrix]
  by blast

text \<open>
  C2: in every generated local row, the stored entry whose global column index is the
  row's own global row index has the value 27, every other stored entry has the value -1,
  exactly one entry of the row has the row's own global index as its column, and
  \<^verbatim>\<open>matrixDiagonal[row]\<close> points to the slot of that entry.  The routine does not
  establish this on every geometry on which it returns.  The offset of a plane of the
  stencil, \<^verbatim>\<open>sz*gnx*gny\<close>, is a product of \<^verbatim>\<open>int\<close>s, whereas the row's own number
  \<^verbatim>\<open>giz*gnx*gny\<close> is computed in \<^verbatim>\<open>global_int_t\<close>.  With 256 x 65537 x 2 local points on
  each of 256 x 1 x 1 processes, \<^verbatim>\<open>gnx*gny\<close> is \<open>2 ^ 32 + 65536\<close> and is reduced to 65536,
  the offset of one line.  On the process of rank 0 the routine returns, and local row 256
  (\<open>ix = 0\<close>, \<open>iy = 1\<close>, \<open>iz = 0\<close>; global row 65536) holds 12 entries, among them its own
  column 65536 twice, in the slots 2 and 6, both with the value 27, and
  \<^verbatim>\<open>matrixDiagonal\<close> points to slot 6.
\<close>

theorem diagonal_entry_stored_twice:
  "\<exists>P. GenerateProblem CInt CLongLong (replicate 254 603982848 @ [603196412])
          (grid_geometry 256 65537 2 256 1 1) A = Inr P
      \<and> localToGlobalMap P ! 256 = 65536
      \<and> nonzerosInRow P ! 256 = Some 12
      \<and> mtxIndG P ! 256
          = [0, 1, 65536, 65537, 131072, 131073, 65536, 65537, 131072, 131073, 196608, 196609]
      \<and> matrixValues P ! 256 = [- 1, - 1, 27, - 1, - 1, - 1, 27, - 1, - 1, - 1, - 1, - 1]
      \<and> matrixDiagonal P ! 256 = Some 6"
proof -
  obtain P where P: "GenerateProblem CInt CLongLong (replicate 254 603982848 @ [603196412])
          (grid_geometry 256 65537 2 256 1 1) A = Inr P"
    "row_stored CLongLong (grid_geometry 256 65537 2 256 1 1) P 256"
    using row_256_stored by blast
  from P(2) have "localToGlobalMap P ! 256 = 65536 \<and> nonzerosInRow P ! 256 = Some 12
      \<and> mtxIndG P ! 256
          = [0, 1, 65536, 65537, 131072, 131073, 65536, 65537, 131072, 131073, 196608, 196609]
      \<and> matrixValues P ! 256 = [- 1, - 1, 27, - 1, - 1, - 1, 27, - 1, - 1, - 1, - 1, - 1]
      \<and> matrixDiagonal P ! 256 = Some 6"
    unfolding row_stored_def row_256_columns
    by (simp add: write_entry_def empty_row_def new_row_def)
  with P(1) show ?thesis
    by blast
qed







text \<open>
  GenerateProblem checks its sizes with assertions that abort: it fails at the first
  assertion when \<^verbatim>\<open>localNumberOfRows <= 0\<close>, at the second when
  \<^verbatim>\<open>totalNumberOfRows <= 0\<close>, and at the third when the rows have been generated and
  \<^verbatim>\<open>totalNumberOfNonzeros <= 0\<close>.  For a geometry with positive extents, a process position
  inside the process grid and a positive process count, in which no computation overflows
  the type in which the routine carries it out, the routine returns a problem: no
  assertion fails.
\<close>

theorem GenerateProblem_asserts:
  "(numberOfLocalRows L geom \<le> 0 \<longrightarrow> GenerateProblem L G others geom A = Inl AssertLocalRows) \<and>
   (0 < numberOfLocalRows L geom \<and> numberOfTotalRows L G geom \<le> 0 \<longrightarrow>
      GenerateProblem L G others geom A = Inl AssertTotalRows) \<and>
   (0 < numberOfLocalRows L geom \<and> 0 < numberOfTotalRows L G geom \<longrightarrow>
      (\<forall>P. generate_rows L G geom (allocate (nat (numberOfLocalRows L geom)) A) = Inr P \<and>
           wrap G (MPI_Allreduce_SUM (localNumberOfNonzeros P) others) \<le> 0 \<longrightarrow>
           GenerateProblem L G others geom A = Inl AssertTotalNonzeros)) \<and>
   (valid_geometry geom \<and> no_overflow L G geom \<and> counts_fit G geom others \<longrightarrow>
      (\<exists>P. GenerateProblem L G others geom A = Inr P) \<and>
      0 < numberOfLocalRows L geom \<and> 0 < numberOfTotalRows L G geom)"
proof (intro conjI impI allI)
  assume "numberOfLocalRows L geom \<le> 0"
  then show "GenerateProblem L G others geom A = Inl AssertLocalRows"
    by (simp add: GenerateProblem_def)
next
  assume "0 < numberOfLocalRows L geom \<and> numberOfTotalRows L G geom \<le> 0"
  then show "GenerateProblem L G others geom A = Inl AssertTotalRows"
    by (simp add: GenerateProblem_def)
next
  fix P
  assume "0 < numberOfLocalRows L geom \<and> 0 < numberOfTotalRows L G geom"
    and "generate_rows L G geom (allocate (nat (numberOfLocalRows L geom)) A) = Inr P \<and>
           wrap G (MPI_Allreduce_SUM (localNumberOfNonzeros P) others) \<le> 0"
  then show "GenerateProblem L G others geom A = Inl AssertTotalNonzeros"
    by (simp add: GenerateProblem_def Let_def)
next
  assume a: "valid_geometry geom \<and> no_overflow L G geom \<and> counts_fit G geom others"
  then show "\<exists>P. GenerateProblem L G others geom A = Inr P"
    using GenerateProblem_succeeds[of geom L G others A] by blast
  show "0 < numberOfLocalRows L geom" "0 < numberOfTotalRows L G geom"
    using a local_counts[of geom L G] by simp_all
qed

theorem GenerateProblem_asserts_witness:
  "GenerateProblem CInt CInt [] (box_geometry 2048 1 0) empty_matrix = Inl AssertLocalRows \<and>
   GenerateProblem CInt CInt [] ((box_geometry 1 1 0)\<lparr>size_g := 0\<rparr>) empty_matrix = Inl AssertTotalRows \<and>
   GenerateProblem CInt CInt [] ((box_geometry 1 1 0)\<lparr>nx := - 1, ny := - 1\<rparr>) empty_matrix
     = Inl AssertTotalNonzeros \<and>
   valid_geometry (box_geometry 2 2 1) \<and> no_overflow CInt CLongLong (box_geometry 2 2 1) \<and>
   counts_fit CLongLong (box_geometry 2 2 1) [125, 125, 125, 125, 125, 125, 125] \<and>
   (\<exists>P. GenerateProblem CInt CLongLong [125, 125, 125, 125, 125, 125, 125] (box_geometry 2 2 1) empty_matrix = Inr P)"
proof -
  have 1: "GenerateProblem CInt CInt [] (box_geometry 2048 1 0) empty_matrix = Inl AssertLocalRows"
    using GenerateProblem_asserts [of CInt "box_geometry 2048 1 0" CInt "[]" empty_matrix]
      asserts_examples(1) by blast
  have 2: "GenerateProblem CInt CInt [] ((box_geometry 1 1 0)\<lparr>size_g := 0\<rparr>) empty_matrix = Inl AssertTotalRows"
    using GenerateProblem_asserts [of CInt "(box_geometry 1 1 0)\<lparr>size_g := 0\<rparr>" CInt "[]" empty_matrix]
      asserts_examples(2) by blast
  have 3: "GenerateProblem CInt CInt [] ((box_geometry 1 1 0)\<lparr>nx := - 1, ny := - 1\<rparr>) empty_matrix
      = Inl AssertTotalNonzeros"
    using GenerateProblem_asserts [of CInt "(box_geometry 1 1 0)\<lparr>nx := - 1, ny := - 1\<rparr>" CInt "[]" empty_matrix]
      asserts_examples(3) no_rows_example no_rows_count by blast
  have 4: "\<exists>P. GenerateProblem CInt CLongLong [125, 125, 125, 125, 125, 125, 125] (box_geometry 2 2 1) empty_matrix = Inr P"
    using GenerateProblem_asserts [of CInt "box_geometry 2 2 1" CLongLong "[125, 125, 125, 125, 125, 125, 125]" empty_matrix]
      box_2_2_1 by blast
  from 1 2 3 4 box_2_2_1 show ?thesis
    by blast
qed

text \<open>
  C6: GenerateProblem aborts when \<^verbatim>\<open>localNumberOfRows <= 0\<close>, when
  \<^verbatim>\<open>totalNumberOfRows <= 0\<close> or when \<^verbatim>\<open>totalNumberOfNonzeros <= 0\<close>, and on a geometry with
  positive extents whose derived counts do not overflow their index types no assertion
  fails.  The routine does not establish the latter.  The total number of rows is a
  \<^verbatim>\<open>global_int_t\<close>, but the product \<^verbatim>\<open>localNumberOfRows*geom.size\<close> that initialises it is
  computed in \<^verbatim>\<open>local_int_t\<close>.  With 128 x 128 x 128 local points on each of 16 x 8 x 8
  processes and the index types of the source, the \<open>2 ^ 21\<close> local rows fit \<^verbatim>\<open>int\<close>, the
  \<open>2 ^ 31\<close> rows of the whole mesh and 27 nonzeros for each of them fit \<^verbatim>\<open>long long\<close>, the
  global extents and \<^verbatim>\<open>gnx*gny\<close> fit \<^verbatim>\<open>int\<close>, and the product is reduced to \<open>- (2 ^ 31)\<close>:
  the second assertion aborts the program, whatever the matrix object and the counts of
  the other processes are.
\<close>

theorem total_rows_assertion_fails:
  "valid_geometry (grid_geometry 128 128 128 16 8 8)
   \<and> nx (grid_geometry 128 128 128 16 8 8) * ny (grid_geometry 128 128 128 16 8 8)
       * nz (grid_geometry 128 128 128 16 8 8) = 2 ^ 21
   \<and> size_g (grid_geometry 128 128 128 16 8 8) = 1024
   \<and> fits CInt (2 ^ 21)
   \<and> fits CLongLong (2 ^ 21 * 1024)
   \<and> fits CLongLong (27 * (2 ^ 21 * 1024))
   \<and> fits CInt (global_nx (grid_geometry 128 128 128 16 8 8))
   \<and> fits CInt (global_ny (grid_geometry 128 128 128 16 8 8))
   \<and> fits CInt (global_nz (grid_geometry 128 128 128 16 8 8))
   \<and> fits CInt (global_nx (grid_geometry 128 128 128 16 8 8)
                 * global_ny (grid_geometry 128 128 128 16 8 8))
   \<and> GenerateProblem CInt CLongLong others (grid_geometry 128 128 128 16 8 8) A
       = Inl AssertTotalRows"
  by (simp add: GenerateProblem_def numberOfLocalRows_def numberOfTotalRows_def
      grid_geometry_def valid_geometry_def global_nx_def global_ny_def global_nz_def int_eval)







text \<open>
  Where no integer computation overflows, the product \<^verbatim>\<open>gnx*gny\<close> of the stencil offsets
  included: for every generated local row, the global column indices stored for the row
  (the first \<^verbatim>\<open>nonzerosInRow[r]\<close> slots of \<^verbatim>\<open>mtxIndG[r]\<close>, which are the slots the model
  keeps) are strictly increasing, hence pairwise distinct.
\<close>

theorem columns_strictly_increasing:
  assumes "valid_geometry geom" and "no_overflow L G geom" and "counts_fit G geom others"
  shows "\<exists>P. GenerateProblem L G others geom A = Inr P \<and>
           length (mtxIndG P) = num_rows geom \<and> length (nonzerosInRow P) = num_rows geom \<and>
           (\<forall>r<num_rows geom.
              nonzerosInRow P ! r = Some (int (length (mtxIndG P ! r))) \<and>
              sorted_wrt (<) (mtxIndG P ! r) \<and> distinct (mtxIndG P ! r))"
proof -
  obtain P where P: "GenerateProblem L G others geom A = Inr P" "allocated geom P"
    and rows: "\<And>r. r < num_rows geom \<Longrightarrow> row_ok geom P r"
    using GenerateProblem_rows[OF assms(1-3)] by blast
  have "nonzerosInRow P ! r = Some (int (length (mtxIndG P ! r))) \<and>
        sorted_wrt (<) (mtxIndG P ! r) \<and> distinct (mtxIndG P ! r)"
    if "r < num_rows geom" for r
    using rows[OF that] by (simp add: row_ok_def sorted_row_cols distinct_row_cols)
  moreover have "length (localToGlobalMap P) = num_rows geom" "length (mtxIndG P) = num_rows geom"
    "length (matrixValues P) = num_rows geom" "length (matrixDiagonal P) = num_rows geom"
    "length (nonzerosInRow P) = num_rows geom" "length (x_vec P) = num_rows geom"
    "length (b_vec P) = num_rows geom" "length (xexact_vec P) = num_rows geom"
    using P(2) by (simp_all add: allocated_def)
  ultimately show ?thesis
    using P(1) by blast
qed

theorem columns_strictly_increasing_witness:
  "valid_geometry (box_geometry 2 2 1) \<and> no_overflow CInt CLongLong (box_geometry 2 2 1) \<and>
   counts_fit CLongLong (box_geometry 2 2 1) [125, 125, 125, 125, 125, 125, 125] \<and>
   (\<exists>P. GenerateProblem CInt CLongLong [125, 125, 125, 125, 125, 125, 125] (box_geometry 2 2 1) empty_matrix = Inr P \<and>
      (\<forall>r<num_rows (box_geometry 2 2 1). sorted_wrt (<) (mtxIndG P ! r) \<and> distinct (mtxIndG P ! r)))"
  using box_2_2_1 columns_strictly_increasing [OF box_2_2_1, of empty_matrix]
  by blast

text \<open>
  C9: for every generated local row, the global column indices stored for the row are
  strictly increasing, hence pairwise distinct.  The routine does not establish this on
  every geometry on which it returns, for the reason given for the diagonal entries: the
  plane offset \<^verbatim>\<open>sz*gnx*gny\<close> is a product of \<^verbatim>\<open>int\<close>s.  With 256 x 256 x 2 local points on
  each of 192 x 192 x 1 processes, \<^verbatim>\<open>gnx*gny\<close> is \<open>49152 * 49152\<close> and is reduced to
  \<open>- 1879048192\<close>.  On the process of rank 0 the routine returns, and local row 257
  (\<open>ix = 1\<close>, \<open>iy = 1\<close>, \<open>iz = 0\<close>; global row 49153) holds 18 columns of which the last nine,
  those of the plane above, are negative and follow the column 98306.
\<close>

theorem stored_columns_decrease:
  "\<exists>P. GenerateProblem CInt CLongLong
          (replicate 3 2353156 @ replicate 760 2356224 @ replicate 36100 2359296)
          (grid_geometry 256 256 2 192 192 1) A = Inr P
      \<and> nonzerosInRow P ! 257 = Some 18
      \<and> mtxIndG P ! 257
          = [0, 1, 2, 49152, 49153, 49154, 98304, 98305, 98306,
             - 1879048192, - 1879048191, - 1879048190, - 1878999040, - 1878999039, - 1878999038,
             - 1878949888, - 1878949887, - 1878949886]"
proof -
  obtain P where P: "GenerateProblem CInt CLongLong
          (replicate 3 2353156 @ replicate 760 2356224 @ replicate 36100 2359296)
          (grid_geometry 256 256 2 192 192 1) A = Inr P"
    "row_stored CLongLong (grid_geometry 256 256 2 192 192 1) P 257"
    using row_257_stored by blast
  from P(2) have "nonzerosInRow P ! 257 = Some 18
      \<and> mtxIndG P ! 257
          = [0, 1, 2, 49152, 49153, 49154, 98304, 98305, 98306,
             - 1879048192, - 1879048191, - 1879048190, - 1878999040, - 1878999039, - 1878999038,
             - 1878949888, - 1878949887, - 1878949886]"
    unfolding row_stored_def row_257_columns by simp
  with P(1) show ?thesis
    by blast
qed

end
